theory Spec2Isabelle
  imports Main "HOL-Library.AList" "HOL-Library.Sublist" "HOL-Library.Char_ord"
    "HOL-Library.List_Lexorder"
begin

section \<open>Python string primitives used by \<open>split.py\<close>\<close>

text \<open>
  Python's \<open>sep.join(xs)\<close>: the elements of \<open>xs\<close> with \<open>sep\<close> between
  consecutive ones; the empty string for the empty list.
\<close>

fun join :: "string \<Rightarrow> string list \<Rightarrow> string" where
  "join sep [] = []"
| "join sep [x] = x"
| "join sep (x # y # ys) = x @ sep @ join sep (y # ys)"

text \<open>
  \<open>s.replace(c, new)\<close> where the pattern is the one-character string \<open>c\<close>: every
  occurrence of the character is replaced, left to right.
\<close>

definition replace :: "char \<Rightarrow> string \<Rightarrow> string \<Rightarrow> string" where
  "replace c new s = concat (map (\<lambda>x. if x = c then new else [x]) s)"

text \<open>
  The slice \<open>s[:-4]\<close>: all but the last four characters, and the empty string when
  \<open>s\<close> has at most four.
\<close>

definition drop_last4 :: "string \<Rightarrow> string" where
  "drop_last4 s = take (length s - 4) s"

section \<open>Linker script synthesis (\<open>write_ldscript\<close>, lines 32--45)\<close>

text \<open>
  The text that \<open>write_ldscript\<close> writes to \<open>rom_name + ".ld"\<close>. The three
  \<open>f.write\<close> calls of the default branch are concatenated in order.
\<close>

definition write_ldscript :: "string list \<Rightarrow> bool \<Rightarrow> string" where
  "write_ldscript sections bare =
     (if bare then join ''\<newline>'' sections
      else ''SECTIONS\<newline>{\<newline>    ''
           @ drop_last4 (join ''\<newline>    '' (map (replace CHR ''\<newline>'' ''\<newline>    '') sections))
           @ ''}\<newline>'')"


section \<open>More string primitives\<close>

text \<open>
  \<open>s.split(c)\<close> for a one-character separator: the pieces between the occurrences of
  \<open>c\<close>; the result always has at least one element.
\<close>

fun py_split :: "char \<Rightarrow> string \<Rightarrow> string list" where
  "py_split c [] = [[]]"
| "py_split c (x # xs) =
     (if x = c then [] # py_split c xs
      else (case py_split c xs of
              w # ws \<Rightarrow> (x # w) # ws
            | [] \<Rightarrow> [[x]]))"

text \<open>
  \<open>str.upper()\<close> on ASCII text: the lower-case letters are mapped to upper case and
  every other character is kept. Symbol names and kind tags are ASCII.
\<close>

definition upper_char :: "char \<Rightarrow> char" where
  "upper_char c =
     (case map_of (zip ''abcdefghijklmnopqrstuvwxyz'' ''ABCDEFGHIJKLMNOPQRSTUVWXYZ'') c of
        Some u \<Rightarrow> u
      | None \<Rightarrow> c)"

definition upper :: "string \<Rightarrow> string" where
  "upper s = map upper_char s"

section \<open>Errors, log output and files\<close>

text \<open>
  Every way in which \<open>main\<close> stops early. \<open>SystemExit n\<close> is \<open>exit(n)\<close>; the
  others are uncaught Python exceptions. \<open>Uncaught\<close> carries the message of an exception
  raised by imported code.
\<close>

datatype error =
    SystemExit nat
  | IndexError
  | KeyError
  | AttributeError
  | AssertionError
  | ZeroDivisionError
  | Uncaught string

text \<open>
  The calls to the \<open>log\<close> module that report an error (\<open>log.write(..., status="error")\<close>)
  and the progress dots (\<open>log.dot(status=...)\<close>). The informational messages (the
  verbose per-segment line, "Writing linker script", the statistics report) are not
  modelled: they change nothing but the console.
\<close>

datatype log_event = LogError string | LogDot string

text \<open>The four files \<open>main\<close> writes below \<open>repo_path\<close>.\<close>

datatype file_id = LdScript | UndefinedFuncsAuto | UndefinedSymsAuto | SplatCache

datatype 'fp content = Text string | Pickled "(string \<times> 'fp) list"

section \<open>Handler classes and their lookup (lines 110--138)\<close>

text \<open>
  A handler class, as far as \<open>main\<close> looks at it: the class attribute
  \<open>require_unique_name\<close> and whether the class is \<open>N64SegCode\<close>
  (\<open>type(segment) == N64SegCode\<close>).
\<close>

record segment_class =
  require_unique_name :: bool
  is_N64SegCode :: bool

text \<open>
  The outcome of \<open>importlib.import_module\<close>: \<open>ModuleNotFoundError\<close>, any other
  exception, or a module, given by its attributes.
\<close>

datatype import_result =
    ModuleNotFound
  | ImportRaises string
  | Module "string \<rightharpoonup> segment_class"

text \<open>
  The outcome of the three loading calls inside the \<open>try\<close> of
  \<open>get_extension_class\<close>: an exception (a missing file makes \<open>exec_module\<close> raise
  \<open>FileNotFoundError\<close>), or the loaded module.
\<close>

datatype load_result =
    LoadRaises string
  | Loaded "string \<rightharpoonup> segment_class"

datatype modes = ModesStr string | ModesList "string list"

text \<open>
  The run's inputs other than the segment declarations and the files on disk.
  \<open>import_module\<close> and \<open>load_extension\<close> stand for the Python import machinery;
  \<open>ext_dir\<close> is the result of \<open>get_extension_dir\<close> (\<open>None\<close> when the options have
  no \<open>extensions\<close> entry); \<open>c_funcs\<close> is the address-to-name dictionary returned by
  \<open>gather_c_funcs\<close>; \<open>modes\<close> is the \<open>--modes\<close> argument, a list, or the string
  \<open>"all"\<close> when the argument is absent.
\<close>

record env =
  import_module :: "string \<Rightarrow> import_result"
  ext_dir :: "string option"
  load_extension :: "string \<Rightarrow> string \<Rightarrow> load_result"
  c_funcs :: "(int \<times> string) list"
  rom_bytes :: "char list"
  modes :: modes
  verbose :: bool
  ignore_cache :: bool
  ld_bare :: bool

text \<open>\<open>"N64Seg" + seg_type[0].upper() + seg_type[1:]\<close>; \<open>seg_type[0]\<close> raises on
  the empty string.\<close>

definition class_name :: "string \<Rightarrow> error + string" where
  "class_name seg_type =
     (case seg_type of
        [] \<Rightarrow> Inl IndexError
      | c # cs \<Rightarrow> Inr (''N64Seg'' @ upper [c] @ cs))"

definition getattr :: "(string \<rightharpoonup> segment_class) \<Rightarrow> string \<Rightarrow> error + segment_class" where
  "getattr module seg_type =
     (case class_name seg_type of
        Inl e \<Rightarrow> Inl e
      | Inr n \<Rightarrow> (case module n of None \<Rightarrow> Inl AttributeError | Some c \<Rightarrow> Inr c))"

definition get_base_segment_class :: "env \<Rightarrow> string \<Rightarrow> error + segment_class option" where
  "get_base_segment_class e seg_type =
     (case import_module e (''segtypes.'' @ seg_type) of
        ModuleNotFound \<Rightarrow> Inr None
      | ImportRaises msg \<Rightarrow> Inl (Uncaught msg)
      | Module segmodule \<Rightarrow> map_sum id Some (getattr segmodule seg_type))"

text \<open>
  \<open>get_extension_class\<close> returns the class or \<open>None\<close>, together with what it
  logged; an exception inside the \<open>try\<close> is logged and gives \<open>None\<close>.
\<close>

definition get_extension_class ::
  "env \<Rightarrow> string \<Rightarrow> error + (segment_class option \<times> log_event list)" where
  "get_extension_class e seg_type =
     (case ext_dir e of
        None \<Rightarrow> Inr (None, [])
      | Some d \<Rightarrow>
          (case load_extension e d seg_type of
             LoadRaises err \<Rightarrow> Inr (None, [LogError err])
           | Loaded ext_mod \<Rightarrow> map_sum id (\<lambda>c. (Some c, [])) (getattr ext_mod seg_type)))"


section \<open>Segments and the state of a run\<close>

text \<open>
  The handler classes (\<open>segtypes.*\<close>) are not part of \<open>split.py\<close>. A constructed
  handler object is given by the values \<open>main\<close> reads from it: \<open>kind\<close> is
  \<open>parse_segment_type\<close> of the raw declaration, \<open>should_run\<close> the answer of
  \<open>segment.should_run()\<close> as a function of \<open>options["modes"]\<close>, which the
  handler reads, \<open>cache_fp\<close> the value of \<open>segment.cache()\<close>, and
  \<open>glabels_added\<close>, \<open>glabels_to_add\<close> and
  \<open>undefined_syms_to_add\<close> the elements of those sets once \<open>segment.split\<close> has
  run. A fingerprint is a value of the handler's own choice other than \<open>None\<close>.
\<close>

record 'fp segment =
  kind :: string
  name :: string
  type :: string
  rom_start :: int
  rom_end :: int
  rom_length :: int
  is_name_default :: bool
  should_run :: "modes \<Rightarrow> bool"
  cache_fp :: 'fp
  unique_id :: string
  glabels_added :: "string list"
  glabels_to_add :: "string list"
  undefined_syms_to_add :: "string list"
  get_ld_section :: string

text \<open>
  An entry of \<open>config['segments']\<close>: an entry of length one only holds an address
  and bounds the region before it; any other entry declares a region.
\<close>

datatype 'fp decl = Sentinel int | Region "'fp segment"

text \<open>
  The local variables of \<open>main\<close> that survive an iteration, and its effects on the
  outside: \<open>logged\<close> (calls to \<open>log\<close>), \<open>split_calls\<close> (the segments whose
  \<open>split\<close> was called), \<open>postsplit_calls\<close> (those whose \<open>postsplit\<close> was called),
  \<open>fs\<close> (the contents of the four files, \<open>None\<close> for a file that does not exist)
  and \<open>written\<close> (the files opened for writing, in order).
\<close>

record 'fp state =
  ran_segments :: "'fp segment list"
  ld_sections :: "string list"
  seen_segment_names :: "string set"
  defined_funcs :: "string set"
  undefined_funcs :: "string set"
  undefined_syms :: "string set"
  seg_sizes :: "(string \<times> int) list"
  seg_split :: "(string \<times> int) list"
  seg_cached :: "(string \<times> int) list"
  cache :: "(string \<times> 'fp) list"
  logged :: "log_event list"
  split_calls :: "'fp segment list"
  postsplit_calls :: "'fp segment list"
  fs :: "file_id \<Rightarrow> 'fp content option"
  written :: "file_id list"

text \<open>
  A step of \<open>main\<close> either stops the run, with the error and the state reached, or
  continues in a new state.
\<close>

type_synonym 'fp result = "(error \<times> 'fp state) + 'fp state"

text \<open>
  Loading the cache (lines 181--186): any failure of \<open>open\<close> or \<open>pickle.load\<close>
  gives the empty dictionary.
\<close>

definition load_cache :: "(file_id \<Rightarrow> 'fp content option) \<Rightarrow> (string \<times> 'fp) list" where
  "load_cache files =
     (case files SplatCache of
        Some (Pickled c) \<Rightarrow> c
      | _ \<Rightarrow> [])"

definition init_state :: "(file_id \<Rightarrow> 'fp content option) \<Rightarrow> 'fp state" where
  "init_state files =
     \<lparr> ran_segments = [], ld_sections = [], seen_segment_names = {},
       defined_funcs = {}, undefined_funcs = {}, undefined_syms = {},
       seg_sizes = [], seg_split = [], seg_cached = [],
       cache = load_cache files, logged = [], split_calls = [], postsplit_calls = [],
       fs = files, written = [] \<rparr>"

text \<open>\<open>d[k] += n\<close> on a dictionary of integers: \<open>KeyError\<close> when \<open>k\<close> is absent.\<close>

definition dict_add :: "(string \<times> int) list \<Rightarrow> string \<Rightarrow> int \<Rightarrow> error + (string \<times> int) list" where
  "dict_add d k n =
     (case map_of d k of
        None \<Rightarrow> Inl KeyError
      | Some v \<Rightarrow> Inr (AList.update k (v + n) d))"

section \<open>The segment loop (lines 189--261)\<close>

text \<open>
  Lines 194--203: the built-in class first, then the extension directory; when both
  give \<open>None\<close> the error is logged and the run exits with status 1.
\<close>

definition could_not_load :: "string \<Rightarrow> string" where
  "could_not_load seg_type =
     ''ERROR: could not load '' @ seg_type
       @ '' segment type. Confirm your extension directory is configured correctly''"

text \<open>Lines 196--199: the class, or \<open>None\<close>, and what the lookup logged.\<close>

definition find_segment_class ::
  "env \<Rightarrow> string \<Rightarrow> error + (segment_class option \<times> log_event list)" where
  "find_segment_class e seg_type =
     (case get_base_segment_class e seg_type of
        Inl err \<Rightarrow> Inl err
      | Inr (Some segment_class) \<Rightarrow> Inr (Some segment_class, [])
      | Inr None \<Rightarrow> get_extension_class e seg_type)"

definition resolve_class ::
  "env \<Rightarrow> 'fp state \<Rightarrow> string \<Rightarrow> (error \<times> 'fp state) + (segment_class \<times> 'fp state)" where
  "resolve_class e st seg_type =
     (case find_segment_class e seg_type of
        Inl err \<Rightarrow> Inl (err, st)
      | Inr (Some segment_class, out) \<Rightarrow>
          Inr (segment_class, st\<lparr>logged := logged st @ out\<rparr>)
      | Inr (None, out) \<Rightarrow>
          Inl (SystemExit 1,
               st\<lparr>logged := logged st @ out @ [LogError (could_not_load seg_type)]\<rparr>))"

definition not_unique :: "string \<Rightarrow> string" where
  "not_unique n = ''ERROR: Segment name '' @ n @ '' is not unique''"

text \<open>Lines 223--225: the statistics bucket of a segment.\<close>

definition bucket :: "'fp segment \<Rightarrow> string" where
  "bucket segment =
     (if type segment = ''bin'' \<and> is_name_default segment then ''unk'' else type segment)"

text \<open>Lines 227--231.\<close>

definition count_size :: "string \<Rightarrow> int \<Rightarrow> 'fp state \<Rightarrow> 'fp result" where
  "count_size tp len st =
     (let st1 = (if map_of (seg_sizes st) tp = None
                 then st\<lparr>seg_sizes := AList.update tp 0 (seg_sizes st),
                         seg_split := AList.update tp 0 (seg_split st),
                         seg_cached := AList.update tp 0 (seg_cached st)\<rparr>
                 else st)
      in case dict_add (seg_sizes st1) tp len of
           Inl err \<Rightarrow> Inl (err, st1)
         | Inr d \<Rightarrow> Inr (st1\<lparr>seg_sizes := d\<rparr>))"

text \<open>
  Lines 249--252: only a segment of class \<open>N64SegCode\<close> contributes to the three
  symbol sets.
\<close>

definition fold_symbols :: "segment_class \<Rightarrow> 'fp segment \<Rightarrow> 'fp state \<Rightarrow> 'fp state" where
  "fold_symbols cls segment st =
     (if is_N64SegCode cls
      then st\<lparr>defined_funcs := defined_funcs st \<union> set (glabels_added segment),
              undefined_funcs := undefined_funcs st \<union> set (glabels_to_add segment),
              undefined_syms := undefined_syms st \<union> set (undefined_syms_to_add segment)\<rparr>
      else st)"

text \<open>
  Lines 233--261, for a constructed segment whose size has been counted. On a cache hit
  the iteration ends at \<open>continue\<close>, before line 261.
\<close>

definition run_segment :: "env \<Rightarrow> segment_class \<Rightarrow> 'fp segment \<Rightarrow> 'fp state \<Rightarrow> 'fp result" where
  "run_segment e cls segment st =
     (let tp = bucket segment in
      if should_run segment (modes e) then
        (let cached = cache_fp segment in
         if \<not> ignore_cache e \<and> map_of (cache st) (unique_id segment) = Some cached then
           (let st1 = st\<lparr>logged := logged st @ [LogDot ''skip'']\<rparr> in
            case dict_add (seg_cached st1) tp 1 of
              Inl err \<Rightarrow> Inl (err, st1)
            | Inr d \<Rightarrow> Inr (st1\<lparr>seg_cached := d\<rparr>))
         else
           (let st1 = st\<lparr>cache := AList.update (unique_id segment) cached (cache st)\<rparr>;
                st2 = st1\<lparr>split_calls := split_calls st1 @ [segment]\<rparr>;
                st3 = st2\<lparr>ran_segments := ran_segments st2 @ [segment]\<rparr>;
                st4 = fold_symbols cls segment st3;
                st5 = (if verbose e then st4 else st4\<lparr>logged := logged st4 @ [LogDot ''ok'']\<rparr>)
            in case dict_add (seg_split st5) tp 1 of
                 Inl err \<Rightarrow> Inl (err, st5)
               | Inr d \<Rightarrow>
                   (let st6 = st5\<lparr>seg_split := d\<rparr>
                    in Inr (st6\<lparr>ld_sections := ld_sections st6 @ [get_ld_section segment]\<rparr>))))
      else Inr (st\<lparr>ld_sections := ld_sections st @ [get_ld_section segment]\<rparr>))"

text \<open>
  One iteration of the loop. \<open>has_next\<close> tells whether \<open>config['segments'][i + 1]\<close>
  exists; the handler's constructor, the injection of the shared symbol tables into a
  code segment and \<open>segment.check()\<close> leave the state of \<open>main\<close> as it is.
\<close>

definition init_segment :: "env \<Rightarrow> bool \<Rightarrow> 'fp decl \<Rightarrow> 'fp state \<Rightarrow> 'fp result" where
  "init_segment e has_next d st =
     (case d of
        Sentinel a \<Rightarrow> Inr st
      | Region segment \<Rightarrow>
          (case resolve_class e st (kind segment) of
             Inl stop \<Rightarrow> Inl stop
           | Inr (cls, st1) \<Rightarrow>
               if \<not> has_next then Inl (IndexError, st1)
               else if require_unique_name cls \<and> name segment \<in> seen_segment_names st1 then
                 Inl (SystemExit 1,
                      st1\<lparr>logged := logged st1 @ [LogError (not_unique (name segment))]\<rparr>)
               else
                 (let st2 = (if require_unique_name cls
                             then st1\<lparr>seen_segment_names :=
                                        insert (name segment) (seen_segment_names st1)\<rparr>
                             else st1)
                  in case count_size (bucket segment) (rom_length segment) st2 of
                       Inl stop \<Rightarrow> Inl stop
                     | Inr st3 \<Rightarrow> run_segment e cls segment st3)))"

text \<open>
  The loop over \<open>config['segments']\<close>; \<open>follows\<close> tells whether declarations follow
  the list given (\<open>False\<close> for the whole list).
\<close>

fun init_segments :: "env \<Rightarrow> bool \<Rightarrow> 'fp decl list \<Rightarrow> 'fp state \<Rightarrow> 'fp result" where
  "init_segments e follows [] st = Inr st"
| "init_segments e follows (d # ds) st =
     (case init_segment e (ds \<noteq> [] \<or> follows) d st of
        Inl stop \<Rightarrow> Inl stop
      | Inr st' \<Rightarrow> init_segments e follows ds st')"


section \<open>After the loop (lines 263--314)\<close>

text \<open>\<open>x in options["modes"]\<close>: a substring test when the modes are a string, a
  membership test when they are a list.\<close>

definition mode_in :: "string \<Rightarrow> modes \<Rightarrow> bool" where
  "mode_in x m = (case m of ModesStr s \<Rightarrow> sublist x s | ModesList l \<Rightarrow> x \<in> set l)"

text \<open>Lines 263--264: \<open>postsplit\<close> is called on every segment of \<open>ran_segments\<close>.\<close>

definition postsplit_all :: "'fp state \<Rightarrow> 'fp state" where
  "postsplit_all st = st\<lparr>postsplit_calls := postsplit_calls st @ ran_segments st\<rparr>"

text \<open>Opening a file with mode \<open>"w"\<close> and writing \<open>c\<close> to it.\<close>

definition write_file :: "file_id \<Rightarrow> 'fp content \<Rightarrow> 'fp state \<Rightarrow> 'fp state" where
  "write_file f c st = st\<lparr>fs := (fs st)(f \<mapsto> c), written := written st @ [f]\<rparr>"

text \<open>Lines 267--270.\<close>

definition ldscript_step :: "env \<Rightarrow> 'fp state \<Rightarrow> 'fp state" where
  "ldscript_step e st =
     (if mode_in ''ld'' (modes e) \<or> mode_in ''all'' (modes e)
      then write_file LdScript (Text (write_ldscript (ld_sections st) (ld_bare e))) st
      else st)"

text \<open>
  A Python set may hold integers and strings side by side; \<open>A - B\<close> removes from
  \<open>A\<close> the elements equal to an element of \<open>B\<close>, and a string never equals an
  integer. \<open>c_predefined_funcs\<close> is \<open>set(c_funcs.keys())\<close>, and the keys of
  \<open>c_funcs\<close> are addresses.
\<close>

datatype pyval = PyInt int | PyStr string

definition c_predefined_funcs :: "env \<Rightarrow> pyval set" where
  "c_predefined_funcs e = PyInt ` fst ` set (c_funcs e)"

definition names_minus :: "string set \<Rightarrow> pyval set \<Rightarrow> string set" where
  "names_minus A B = {n \<in> A. PyStr n \<notin> B}"

text \<open>Line 274.\<close>

definition funcs_to_write :: "env \<Rightarrow> 'fp state \<Rightarrow> string list" where
  "funcs_to_write e st =
     sorted_list_of_set
       (names_minus (undefined_funcs st - defined_funcs st) (c_predefined_funcs e))"

text \<open>Line 278: \<open>line.split("_")[1]\<close> raises when the name holds no underscore.\<close>

definition func_line :: "string \<Rightarrow> error + string" where
  "func_line line =
     (case py_split CHR ''_'' line of
        p0 # p1 # ps \<Rightarrow> Inr (line @ '' = 0x'' @ upper (take 8 p1) @ '';\<newline>'')
      | _ \<Rightarrow> Inl IndexError)"

text \<open>Line 285.\<close>

definition sym_line :: "string \<Rightarrow> string" where
  "sym_line s = s @ '' = 0x'' @ drop 2 s @ '';\<newline>''"

text \<open>
  The \<open>for\<close> loop of lines 277--278 on an open file holding \<open>out\<close>: it stops at the
  first line that raises, with what was written before it.
\<close>

fun write_func_lines :: "string list \<Rightarrow> string \<Rightarrow> (error \<times> string) + string" where
  "write_func_lines [] out = Inr out"
| "write_func_lines (line # ls) out =
     (case func_line line of
        Inl err \<Rightarrow> Inl (err, out)
      | Inr l \<Rightarrow> write_func_lines ls (out @ l))"

text \<open>Lines 273--278.\<close>

definition undefined_funcs_step :: "env \<Rightarrow> 'fp state \<Rightarrow> 'fp result" where
  "undefined_funcs_step e st =
     (let to_write = funcs_to_write e st in
      if length to_write > 0 then
        (case write_func_lines to_write [] of
           Inl (err, out) \<Rightarrow> Inl (err, write_file UndefinedFuncsAuto (Text out) st)
         | Inr out \<Rightarrow> Inr (write_file UndefinedFuncsAuto (Text out) st))
      else Inr st)"

text \<open>Lines 281--285.\<close>

definition undefined_syms_step :: "'fp state \<Rightarrow> 'fp state" where
  "undefined_syms_step st =
     (let to_write = sorted_list_of_set (undefined_syms st) in
      if length to_write > 0 then
        write_file UndefinedSymsAuto (Text (concat (map sym_line to_write))) st
      else st)"

text \<open>Lines 288--294.\<close>

definition unk_size :: "'fp state \<Rightarrow> int" where
  "unk_size st = (case map_of (seg_sizes st) ''unk'' of None \<Rightarrow> 0 | Some n \<Rightarrow> n)"

definition rest_size :: "'fp state \<Rightarrow> int" where
  "rest_size st = sum_list (map snd (filter (\<lambda>(tp, n). tp \<noteq> ''unk'') (seg_sizes st)))"

definition total_size :: "env \<Rightarrow> int" where
  "total_size e = int (length (rom_bytes e))"

text \<open>
  Lines 296--299: the assertion, then the two ratios, whose division raises on an empty
  binary.
\<close>

definition statistics_step :: "env \<Rightarrow> 'fp state \<Rightarrow> 'fp result" where
  "statistics_step e st =
     (if unk_size st + rest_size st \<noteq> total_size e then Inl (AssertionError, st)
      else if total_size e = 0 then Inl (ZeroDivisionError, st)
      else Inr st)"

text \<open>Lines 310--314.\<close>

definition save_cache :: "'fp state \<Rightarrow> 'fp state" where
  "save_cache st =
     (if cache st \<noteq> [] then write_file SplatCache (Pickled (cache st)) st else st)"

text \<open>Lines 263--314, from the state the loop ended in.\<close>

definition finish :: "env \<Rightarrow> 'fp state \<Rightarrow> 'fp result" where
  "finish e st =
     (case undefined_funcs_step e (ldscript_step e (postsplit_all st)) of
        Inl stop \<Rightarrow> Inl stop
      | Inr st1 \<Rightarrow>
          (case statistics_step e (undefined_syms_step st1) of
             Inl stop \<Rightarrow> Inl stop
           | Inr st2 \<Rightarrow> Inr (save_cache st2)))"

text \<open>
  \<open>main\<close>, from the files found below \<open>repo_path\<close> and the declarations of
  \<open>config['segments']\<close>.
\<close>

definition main :: "env \<Rightarrow> (file_id \<Rightarrow> 'fp content option) \<Rightarrow> 'fp decl list \<Rightarrow> 'fp result" where
  "main e files segments =
     (case init_segments e False segments (init_state files) of
        Inl stop \<Rightarrow> Inl stop
      | Inr st \<Rightarrow> finish e st)"


section \<open>Reading the outcome of a run\<close>

definition result_state :: "'fp result \<Rightarrow> 'fp state" where
  "result_state r = (case r of Inl (err, st) \<Rightarrow> st | Inr st \<Rightarrow> st)"

definition result_error :: "'fp result \<Rightarrow> error option" where
  "result_error r = (case r of Inl (err, st) \<Rightarrow> Some err | Inr st \<Rightarrow> None)"

text \<open>The regions declared by a list of declarations, in order.\<close>

fun regions :: "'fp decl list \<Rightarrow> 'fp segment list" where
  "regions [] = []"
| "regions (Sentinel a # ds) = regions ds"
| "regions (Region segment # ds) = segment # regions ds"

text \<open>
  The regions cover the byte range from \<open>a\<close> to \<open>b\<close>: the first starts at \<open>a\<close>,
  each one starts where the one before it ends, the last ends at \<open>b\<close>, and the length
  of each is its end minus its start.
\<close>

fun covers :: "int \<Rightarrow> 'fp segment list \<Rightarrow> int \<Rightarrow> bool" where
  "covers a [] b = (a = b)"
| "covers a (s # ss) b =
     (rom_start s = a \<and> rom_length s = rom_end s - rom_start s \<and> covers (rom_end s) ss b)"

text \<open>
  The linker sections that a run collects from a list of regions, in declaration order:
  the section of every region but those skipped on a cache hit. \<open>c\<close> is the cache map
  when the first region is reached; every region that is extracted stores its
  fingerprint in it. The modes enter through \<open>should_run\<close> only.
\<close>

fun collected_sections :: "env \<Rightarrow> (string \<times> 'fp) list \<Rightarrow> 'fp segment list \<Rightarrow> string list" where
  "collected_sections e c [] = []"
| "collected_sections e c (s # ss) =
     (if should_run s (modes e) \<and> \<not> ignore_cache e \<and> map_of c (unique_id s) = Some (cache_fp s)
      then collected_sections e c ss
      else get_ld_section s #
           collected_sections e
             (if should_run s (modes e) then AList.update (unique_id s) (cache_fp s) c else c) ss)"

section \<open>Example inputs\<close>

text \<open>
  Two built-in handler modules, \<open>segtypes.bin\<close> and \<open>segtypes.code\<close>, and an
  extension directory that holds a handler for the kind \<open>img\<close> only.
\<close>

definition bin_class :: segment_class where
  "bin_class = \<lparr> require_unique_name = False, is_N64SegCode = False \<rparr>"

definition code_class :: segment_class where
  "code_class = \<lparr> require_unique_name = True, is_N64SegCode = True \<rparr>"

definition img_class :: segment_class where
  "img_class = \<lparr> require_unique_name = True, is_N64SegCode = False \<rparr>"

definition example_env :: env where
  "example_env =
     \<lparr> import_module =
         (\<lambda>m. if m = ''segtypes.bin'' then Module [''N64SegBin'' \<mapsto> bin_class]
              else if m = ''segtypes.code'' then Module [''N64SegCode'' \<mapsto> code_class]
              else ModuleNotFound),
       ext_dir = Some ''ext'',
       load_extension =
         (\<lambda>d k. if d = ''ext'' \<and> k = ''img'' then Loaded [''N64SegImg'' \<mapsto> img_class]
                else LoadRaises ''No such file or directory''),
       c_funcs = [],
       rom_bytes = replicate 32 CHR 0x00,
       modes = ModesList [''all''],
       verbose = False,
       ignore_cache = False,
       ld_bare = False \<rparr>"

text \<open>
  A region of sixteen bytes of the given kind, name, start, fingerprint, defined
  functions and requested functions; it should run when the modes hold its kind or
  \<open>all\<close>.
\<close>

definition example_segment ::
  "string \<Rightarrow> string \<Rightarrow> int \<Rightarrow> nat \<Rightarrow> string list \<Rightarrow> string list \<Rightarrow> nat segment" where
  "example_segment k n start fp defined requested =
     \<lparr> kind = k, name = n, type = k, rom_start = start, rom_end = start + 16,
       rom_length = 16, is_name_default = False,
       should_run = (\<lambda>m. mode_in k m \<or> mode_in ''all'' m), cache_fp = fp,
       unique_id = k @ ''_'' @ n, glabels_added = defined, glabels_to_add = requested,
       undefined_syms_to_add = [], get_ld_section = n @ ''\<newline>'' \<rparr>"

definition no_files :: "file_id \<Rightarrow> nat content option" where
  "no_files = (\<lambda>f. None)"

text \<open>The files of an earlier run that cached the region \<open>b\<close> of kind \<open>bin\<close>
  with fingerprint 7.\<close>

definition cached_files :: "file_id \<Rightarrow> nat content option" where
  "cached_files = (\<lambda>f. if f = SplatCache then Some (Pickled [(''bin_b'', 7)]) else None)"

text \<open>Export files left by an earlier run, and no cache.\<close>

definition stale_files :: "file_id \<Rightarrow> nat content option" where
  "stale_files =
     (\<lambda>f. if f = UndefinedFuncsAuto then Some (Text ''func_80000400 = 0x80000400;\<newline>'')
          else if f = UndefinedSymsAuto then Some (Text ''D_80000500 = 0x80000500;\<newline>'')
          else None)"

section \<open>Linker script text\<close>

text \<open>
  When every descriptor ends with a newline, the four characters cut off are the
  indentation that follows the last newline, and the closing brace starts a line of its
  own.
\<close>

lemma replace_append: "replace c new (xs @ ys) = replace c new xs @ replace c new ys"
  by (simp add: replace_def)

lemma replace_no_occurrence: "c \<notin> set s \<Longrightarrow> replace c new s = s"
  by (induction s) (auto simp: replace_def)

lemma drop_last4_append4: "length t = 4 \<Longrightarrow> drop_last4 (s @ t) = s"
  by (simp add: drop_last4_def)

lemma write_ldscript_newline_terminated:
  assumes "CHR ''\<newline>'' \<notin> set a" "CHR ''\<newline>'' \<notin> set b" "CHR ''\<newline>'' \<notin> set c"
  shows "write_ldscript [a @ ''\<newline>'', b @ ''\<newline>'', c @ ''\<newline>''] False =
           ''SECTIONS\<newline>{\<newline>    '' @ a @ ''\<newline>    \<newline>    '' @ b
             @ ''\<newline>    \<newline>    '' @ c @ ''\<newline>}\<newline>''"
proof -
  let ?nl4 = "''\<newline>    ''"
  have r: "replace CHR ''\<newline>'' ?nl4 (x @ ''\<newline>'') = x @ ?nl4"
    if "CHR ''\<newline>'' \<notin> set x" for x
    using that by (simp add: replace_append replace_no_occurrence) (simp add: replace_def)
  have "join ?nl4 (map (replace CHR ''\<newline>'' ?nl4) [a @ ''\<newline>'', b @ ''\<newline>'', c @ ''\<newline>''])
          = (a @ ?nl4 @ ?nl4 @ b @ ?nl4 @ ?nl4 @ c @ ''\<newline>'') @ ''    ''"
    using assms by (simp add: r)
  then have "drop_last4 (join ?nl4 (map (replace CHR ''\<newline>'' ?nl4)
                 [a @ ''\<newline>'', b @ ''\<newline>'', c @ ''\<newline>'']))
               = a @ ?nl4 @ ?nl4 @ b @ ?nl4 @ ?nl4 @ c @ ''\<newline>''"
    by (simp only: drop_last4_append4 [of "''    ''", simplified])
  then show ?thesis
    by (simp add: write_ldscript_def)
qed

text \<open>
  C4 at the three single-line descriptors \<open>A\<close>, \<open>B\<close>, \<open>C\<close>: in bare mode the
  synthesizer produces the descriptors joined by newlines. In default mode line 42 cuts
  the last four characters off the indented, joined descriptors; for descriptors that
  end with a newline these are the four spaces after the last newline, but here they
  are the descriptor \<open>C\<close> and three of the spaces before it, so that the text written
  is not the block with \<open>A\<close>, \<open>B\<close> and \<open>C\<close> indented. On descriptors that end
  with a newline all of them are kept, each embedded newline followed by four spaces.
\<close>

theorem write_ldscript_three_descriptors:
  "write_ldscript [''A'', ''B'', ''C''] True = ''A\<newline>B\<newline>C'' \<and>
   write_ldscript [''A'', ''B'', ''C''] False = ''SECTIONS\<newline>{\<newline>    A\<newline>    B\<newline> }\<newline>'' \<and>
   write_ldscript [''A'', ''B'', ''C''] False
     \<noteq> ''SECTIONS\<newline>{\<newline>    A\<newline>    B\<newline>    C\<newline>}\<newline>'' \<and>
   write_ldscript [''A\<newline>B\<newline>'', ''C\<newline>''] False
     = ''SECTIONS\<newline>{\<newline>    A\<newline>    B\<newline>    \<newline>    C\<newline>}\<newline>''"
  by (simp add: write_ldscript_def replace_def drop_last4_def)

section \<open>The outcome of a run\<close>

lemma result_Inr: "result_error r = None \<Longrightarrow> r = Inr (result_state r)"
  by (cases r) (auto simp: result_error_def result_state_def)

text \<open>The definitions that evaluate the segment loop on a given input.\<close>

lemmas run_defs = init_segment_def resolve_class_def find_segment_class_def
  get_base_segment_class_def get_extension_class_def getattr_def class_name_def upper_def
  upper_char_def example_env_def example_segment_def count_size_def dict_add_def
  run_segment_def fold_symbols_def bucket_def init_state_def load_cache_def no_files_def
  cached_files_def code_class_def bin_class_def img_class_def result_state_def Let_def
  mode_in_def

section \<open>One iteration of the segment loop\<close>

text \<open>Counting the size of a segment never fails: the bucket is created first.\<close>

lemma count_size_eq:
  "count_size tp len st =
     Inr (st\<lparr>seg_sizes :=
               AList.update tp ((case map_of (seg_sizes st) tp of None \<Rightarrow> 0 | Some v \<Rightarrow> v) + len)
                 (seg_sizes st),
             seg_split :=
               (if map_of (seg_sizes st) tp = None then AList.update tp 0 (seg_split st)
                else seg_split st),
             seg_cached :=
               (if map_of (seg_sizes st) tp = None then AList.update tp 0 (seg_cached st)
                else seg_cached st)\<rparr>)"
  by (auto simp: count_size_def dict_add_def Let_def update_conv' split: option.splits)

lemma run_segment_skip:
  assumes "should_run seg (modes e)" "\<not> ignore_cache e"
    and "map_of (cache st) (unique_id seg) = Some (cache_fp seg)"
    and "map_of (seg_cached st) (bucket seg) = Some v"
  shows "run_segment e cls seg st =
           Inr (st\<lparr>logged := logged st @ [LogDot ''skip''],
                   seg_cached := AList.update (bucket seg) (v + 1) (seg_cached st)\<rparr>)"
  using assms by (simp add: run_segment_def dict_add_def)

lemma run_segment_no_run:
  assumes "\<not> should_run seg (modes e)"
  shows "run_segment e cls seg st =
           Inr (st\<lparr>ld_sections := ld_sections st @ [get_ld_section seg]\<rparr>)"
  using assms by (simp add: run_segment_def)

lemma run_segment_extract:
  assumes "should_run seg (modes e)"
    and "ignore_cache e \<or> map_of (cache st) (unique_id seg) \<noteq> Some (cache_fp seg)"
    and "map_of (seg_split st) (bucket seg) = Some v"
  shows "run_segment e cls seg st =
           Inr ((fold_symbols cls seg st)
                 \<lparr>cache := AList.update (unique_id seg) (cache_fp seg) (cache st),
                  split_calls := split_calls st @ [seg],
                  ran_segments := ran_segments st @ [seg],
                  logged := (if verbose e then logged st else logged st @ [LogDot ''ok'']),
                  seg_split := AList.update (bucket seg) (v + 1) (seg_split st),
                  ld_sections := ld_sections st @ [get_ld_section seg]\<rparr>)"
  using assms by (auto simp: run_segment_def dict_add_def fold_symbols_def Let_def)

lemma run_segment_InrE:
  assumes "run_segment e cls seg st = Inr st'"
  obtains v where "should_run seg (modes e)" "\<not> ignore_cache e"
      "map_of (cache st) (unique_id seg) = Some (cache_fp seg)"
      "st' = st\<lparr>logged := logged st @ [LogDot ''skip''],
                 seg_cached := AList.update (bucket seg) (v + 1) (seg_cached st)\<rparr>"
  | "\<not> should_run seg (modes e)"
      "st' = st\<lparr>ld_sections := ld_sections st @ [get_ld_section seg]\<rparr>"
  | v where "should_run seg (modes e)"
      "ignore_cache e \<or> map_of (cache st) (unique_id seg) \<noteq> Some (cache_fp seg)"
      "st' = (fold_symbols cls seg st)
                 \<lparr>cache := AList.update (unique_id seg) (cache_fp seg) (cache st),
                  split_calls := split_calls st @ [seg],
                  ran_segments := ran_segments st @ [seg],
                  logged := (if verbose e then logged st else logged st @ [LogDot ''ok'']),
                  seg_split := AList.update (bucket seg) (v + 1) (seg_split st),
                  ld_sections := ld_sections st @ [get_ld_section seg]\<rparr>"
proof (cases "should_run seg (modes e)")
  case False
  with assms that(2) show ?thesis by (simp add: run_segment_no_run)
next
  case True
  show ?thesis
  proof (cases "\<not> ignore_cache e \<and> map_of (cache st) (unique_id seg) = Some (cache_fp seg)")
    case hit: True
    with assms True obtain v where "map_of (seg_cached st) (bucket seg) = Some v"
      by (auto simp: run_segment_def dict_add_def Let_def split: option.splits)
    with assms True hit that(1) [of v] show ?thesis by (simp add: run_segment_skip)
  next
    case miss: False
    with assms True obtain v where "map_of (seg_split st) (bucket seg) = Some v"
      by (auto simp: run_segment_def dict_add_def Let_def fold_symbols_def
          split: option.splits if_splits)
    with assms True miss that(3) [of v] show ?thesis
      by (simp add: run_segment_extract)
  qed
qed

lemma init_segment_Region:
  assumes "find_segment_class e (kind seg) = Inr (Some cls, out)"
    and "\<not> (require_unique_name cls \<and> name seg \<in> seen_segment_names st)"
  shows "init_segment e True (Region seg) st =
           (case count_size (bucket seg) (rom_length seg)
                   (st\<lparr>logged := logged st @ out,
                       seen_segment_names :=
                         (if require_unique_name cls
                          then insert (name seg) (seen_segment_names st)
                          else seen_segment_names st)\<rparr>) of
              Inl stop \<Rightarrow> Inl stop
            | Inr st3 \<Rightarrow> run_segment e cls seg st3)"
  using assms by (auto simp: init_segment_def resolve_class_def Let_def)

lemma init_segment_not_unique:
  assumes "find_segment_class e (kind seg) = Inr (Some cls, out)"
    and "require_unique_name cls" "name seg \<in> seen_segment_names st"
  shows "init_segment e True (Region seg) st =
           Inl (SystemExit 1,
                st\<lparr>logged := logged st @ out @ [LogError (not_unique (name seg))]\<rparr>)"
  using assms by (simp add: init_segment_def resolve_class_def)

text \<open>An iteration that continues is that of a sentinel, or has found a class, passed
  the name check, counted the size and run the segment.\<close>

lemma init_segment_InrE:
  assumes "init_segment e hn d st = Inr st'"
  obtains a where "d = Sentinel a" "st' = st"
  | seg cls out st3 where "d = Region seg" "hn"
      "find_segment_class e (kind seg) = Inr (Some cls, out)"
      "\<not> (require_unique_name cls \<and> name seg \<in> seen_segment_names st)"
      "count_size (bucket seg) (rom_length seg)
         (st\<lparr>logged := logged st @ out,
             seen_segment_names :=
               (if require_unique_name cls then insert (name seg) (seen_segment_names st)
                else seen_segment_names st)\<rparr>) = Inr st3"
      "run_segment e cls seg st3 = Inr st'"
proof (cases d)
  case (Sentinel a)
  with assms that(1) show ?thesis by (simp add: init_segment_def)
next
  case (Region seg)
  with assms obtain cls out where f: "find_segment_class e (kind seg) = Inr (Some cls, out)"
    and hn: "hn"
    and u: "\<not> (require_unique_name cls \<and> name seg \<in> seen_segment_names st)"
    by (auto simp: init_segment_def resolve_class_def
        split: sum.splits option.splits prod.splits if_splits)
  from hn have "hn = True" by simp
  with assms Region init_segment_Region [OF f u] that(2) [OF Region hn f u] show ?thesis
    by (auto split: sum.splits)
qed


section \<open>The loop as a whole\<close>

lemma init_segments_invariant:
  assumes "init_segments e follows ds st = Inr st'"
    and "P st"
    and "\<And>hn d s s'. P s \<Longrightarrow> init_segment e hn d s = Inr s' \<Longrightarrow> P s'"
  shows "P st'"
  using assms(1,2)
proof (induction ds arbitrary: st)
  case Nil
  then show ?case by simp
next
  case (Cons d ds)
  then show ?case
    by (auto split: sum.splits intro: assms(3))
qed

lemma init_segments_append:
  "init_segments e follows (xs @ ys) st =
     (case init_segments e (ys \<noteq> [] \<or> follows) xs st of
        Inl stop \<Rightarrow> Inl stop
      | Inr st' \<Rightarrow> init_segments e follows ys st')"
proof (induction xs arbitrary: st)
  case Nil
  then show ?case by simp
next
  case (Cons d xs)
  have b: "(xs @ ys \<noteq> [] \<or> follows) = (xs \<noteq> [] \<or> (ys \<noteq> [] \<or> follows))"
    by auto
  show ?case
    unfolding append_Cons init_segments.simps b Cons.IH
    by (simp split: sum.splits)
qed

text \<open>The loop writes no file and calls no \<open>postsplit\<close>.\<close>

lemma init_segment_outside:
  assumes "init_segment e hn d st = Inr st'"
  shows "fs st' = fs st \<and> written st' = written st \<and> postsplit_calls st' = postsplit_calls st"
  using assms
proof (cases rule: init_segment_InrE)
  case (1 a)
  then show ?thesis by simp
next
  case (2 seg cls out st3)
  from 2(6) show ?thesis
    using 2(5) by (cases rule: run_segment_InrE) (auto simp: count_size_eq fold_symbols_def)
qed

lemma init_segments_outside:
  assumes "init_segments e follows ds st = Inr st'"
  shows "fs st' = fs st \<and> written st' = written st \<and> postsplit_calls st' = postsplit_calls st"
  by (rule init_segments_invariant [OF assms,
        where P = "\<lambda>s. fs s = fs st \<and> written s = written st \<and> postsplit_calls s = postsplit_calls st"])
     (auto dest: init_segment_outside)

text \<open>When the loop stops the run, no file has been written either.\<close>

lemma resolve_class_Inl_outside:
  assumes "resolve_class e st k = Inl (err, st')"
  shows "fs st' = fs st \<and> written st' = written st"
  using assms
  by (auto simp: resolve_class_def split: sum.splits option.splits prod.splits)

lemma run_segment_Inl_outside:
  assumes "run_segment e cls seg st = Inl (err, st')"
  shows "fs st' = fs st \<and> written st' = written st"
  using assms
  by (auto simp: run_segment_def Let_def fold_symbols_def split: sum.splits if_splits)

lemma init_segment_Inl_outside:
  assumes "init_segment e hn d st = Inl (err, st')"
  shows "fs st' = fs st \<and> written st' = written st"
proof (cases d)
  case (Sentinel a)
  with assms show ?thesis by (simp add: init_segment_def)
next
  case (Region seg)
  show ?thesis
  proof (cases "resolve_class e st (kind seg)")
    case (Inl stop)
    with assms Region show ?thesis
      by (cases stop) (auto simp: init_segment_def dest: resolve_class_Inl_outside)
  next
    case (Inr ok)
    obtain cls st1 where ok: "ok = (cls, st1)" by (cases ok)
    from Inr ok have st1: "fs st1 = fs st \<and> written st1 = written st"
      by (auto simp: resolve_class_def split: sum.splits option.splits prod.splits)
    from assms Region Inr ok st1 show ?thesis
      by (auto simp: init_segment_def Let_def count_size_eq
          split: if_splits dest!: run_segment_Inl_outside)
  qed
qed

lemma init_segments_Inl_outside:
  assumes "init_segments e follows ds st = Inl (err, st')"
  shows "fs st' = fs st \<and> written st' = written st"
  using assms
proof (induction ds arbitrary: st)
  case Nil
  then show ?case by simp
next
  case (Cons d ds)
  show ?case
  proof (cases "init_segment e (ds \<noteq> [] \<or> follows) d st")
    case (Inl stop)
    with Cons.prems show ?thesis
      by (auto dest: init_segment_Inl_outside)
  next
    case (Inr s)
    with Cons.prems have "init_segments e follows ds s = Inl (err, st')" by simp
    from Cons.IH [OF this] init_segment_outside [OF Inr] show ?thesis by simp
  qed
qed

text \<open>The three statistics dictionaries have the same buckets, so that the counters of
  lines 238 and 259 are present.\<close>

lemma count_size_doms:
  assumes "count_size tp len st = Inr st3"
  shows "dom (map_of (seg_sizes st3)) = insert tp (dom (map_of (seg_sizes st)))"
    and "dom (map_of (seg_split st)) \<subseteq> dom (map_of (seg_split st3))"
    and "dom (map_of (seg_cached st)) \<subseteq> dom (map_of (seg_cached st3))"
    and "tp \<notin> dom (map_of (seg_sizes st)) \<Longrightarrow> tp \<in> dom (map_of (seg_split st3))"
    and "tp \<notin> dom (map_of (seg_sizes st)) \<Longrightarrow> tp \<in> dom (map_of (seg_cached st3))"
proof -
  from assms have sz: "seg_sizes st3 =
      AList.update tp ((case map_of (seg_sizes st) tp of None \<Rightarrow> 0 | Some v \<Rightarrow> v) + len) (seg_sizes st)"
    and sp: "seg_split st3 =
      (if map_of (seg_sizes st) tp = None then AList.update tp 0 (seg_split st) else seg_split st)"
    and sc: "seg_cached st3 =
      (if map_of (seg_sizes st) tp = None then AList.update tp 0 (seg_cached st) else seg_cached st)"
    by (auto simp: count_size_eq)
  show "dom (map_of (seg_sizes st3)) = insert tp (dom (map_of (seg_sizes st)))"
    by (simp add: sz update_conv')
  show "dom (map_of (seg_split st)) \<subseteq> dom (map_of (seg_split st3))"
    by (auto simp: sp update_conv')
  show "dom (map_of (seg_cached st)) \<subseteq> dom (map_of (seg_cached st3))"
    by (auto simp: sc update_conv')
  show "tp \<in> dom (map_of (seg_split st3))" if "tp \<notin> dom (map_of (seg_sizes st))"
    using that by (auto simp: sp update_conv' domIff)
  show "tp \<in> dom (map_of (seg_cached st3))" if "tp \<notin> dom (map_of (seg_sizes st))"
    using that by (auto simp: sc update_conv' domIff)
qed

lemma run_segment_doms:
  assumes "run_segment e cls seg st = Inr st'"
  shows "seg_sizes st' = seg_sizes st"
    and "dom (map_of (seg_split st)) \<subseteq> dom (map_of (seg_split st'))"
    and "dom (map_of (seg_cached st)) \<subseteq> dom (map_of (seg_cached st'))"
proof -
  from assms show "seg_sizes st' = seg_sizes st"
    by (cases rule: run_segment_InrE) (simp_all add: fold_symbols_def)
  from assms show "dom (map_of (seg_split st)) \<subseteq> dom (map_of (seg_split st'))"
    by (cases rule: run_segment_InrE) (auto simp: fold_symbols_def update_conv')
  from assms show "dom (map_of (seg_cached st)) \<subseteq> dom (map_of (seg_cached st'))"
    by (cases rule: run_segment_InrE) (auto simp: fold_symbols_def update_conv')
qed

lemma init_segment_counters:
  assumes "init_segment e hn d st = Inr st'"
    and "dom (map_of (seg_sizes st)) \<subseteq> dom (map_of (seg_split st)) \<inter> dom (map_of (seg_cached st))"
  shows "dom (map_of (seg_sizes st')) \<subseteq> dom (map_of (seg_split st')) \<inter> dom (map_of (seg_cached st'))"
  using assms(1)
proof (cases rule: init_segment_InrE)
  case (1 a)
  with assms(2) show ?thesis by simp
next
  case (2 seg cls out st3)
  define st2 where "st2 = st\<lparr>logged := logged st @ out,
             seen_segment_names :=
               (if require_unique_name cls then insert (name seg) (seen_segment_names st)
                else seen_segment_names st)\<rparr>"
  have st2: "seg_sizes st2 = seg_sizes st" "seg_split st2 = seg_split st"
    "seg_cached st2 = seg_cached st"
    by (simp_all add: st2_def)
  from 2(5) have c: "count_size (bucket seg) (rom_length seg) st2 = Inr st3"
    by (simp only: st2_def)
  define A where "A = dom (map_of (seg_sizes st))"
  define B where "B = dom (map_of (seg_split st))"
  define C where "C = dom (map_of (seg_cached st))"
  define A3 where "A3 = dom (map_of (seg_sizes st3))"
  define B3 where "B3 = dom (map_of (seg_split st3))"
  define C3 where "C3 = dom (map_of (seg_cached st3))"
  define B' where "B' = dom (map_of (seg_split st'))"
  define C' where "C' = dom (map_of (seg_cached st'))"
  note defs = A_def B_def C_def A3_def B3_def C3_def B'_def C'_def
  have 1: "A3 = insert (bucket seg) A" "B \<subseteq> B3" "C \<subseteq> C3"
    using count_size_doms(1-3) [OF c] by (simp_all only: defs st2)
  have 2: "bucket seg \<notin> A \<Longrightarrow> bucket seg \<in> B3" "bucket seg \<notin> A \<Longrightarrow> bucket seg \<in> C3"
    using count_size_doms(4,5) [OF c] unfolding st2 defs by auto
  have 3: "B3 \<subseteq> B'" "C3 \<subseteq> C'"
    using run_segment_doms(2,3) [OF \<open>run_segment e cls seg st3 = Inr st'\<close>]
    by (simp_all only: defs)
  have 4: "A \<subseteq> B \<inter> C" using assms(2) by (simp only: defs)
  have "A3 \<subseteq> B' \<inter> C'"
    using 1 2 3 4 by blast
  then show ?thesis
    by (simp only: defs run_segment_doms(1) [OF \<open>run_segment e cls seg st3 = Inr st'\<close>])
qed

lemma init_segments_counters:
  assumes "init_segments e follows ds (init_state files) = Inr st"
  shows "dom (map_of (seg_sizes st)) \<subseteq> dom (map_of (seg_split st)) \<inter> dom (map_of (seg_cached st))"
proof (rule init_segments_invariant [OF assms,
        where P = "\<lambda>s. dom (map_of (seg_sizes s)) \<subseteq> dom (map_of (seg_split s)) \<inter> dom (map_of (seg_cached s))"])
  show "dom (map_of (seg_sizes (init_state files)))
          \<subseteq> dom (map_of (seg_split (init_state files))) \<inter> dom (map_of (seg_cached (init_state files)))"
    by (simp add: init_state_def)
qed (rule init_segment_counters)


section \<open>Handler resolution\<close>

lemma sublist_could_not_load: "sublist k (could_not_load k)"
  unfolding could_not_load_def by (rule sublist_appendI)

text \<open>
  C7: the built-in handler class is tried first and the extension directory is the
  fallback; an extension that raises while it is loaded (a missing file does) is logged
  and counts as not found; when neither source has a class the run exits with status 1
  after logging a message that contains the kind.
\<close>

theorem handler_resolution:
  "(import_module e (''segtypes.'' @ k) = Module m \<and> getattr m k = Inr c \<longrightarrow>
      resolve_class e st k = Inr (c, st)) \<and>
   (import_module e (''segtypes.'' @ k) = ModuleNotFound \<and> ext_dir e = Some d \<and>
    load_extension e d k = Loaded m \<and> getattr m k = Inr c \<longrightarrow>
      resolve_class e st k = Inr (c, st)) \<and>
   (ext_dir e = Some d \<and> load_extension e d k = LoadRaises err \<longrightarrow>
      get_extension_class e k = Inr (None, [LogError err])) \<and>
   (import_module e (''segtypes.'' @ k) = ModuleNotFound \<and> ext_dir e = Some d \<and>
    load_extension e d k = LoadRaises err \<longrightarrow>
      resolve_class e st k =
        Inl (SystemExit 1,
             st\<lparr>logged := logged st @ [LogError err, LogError (could_not_load k)]\<rparr>)) \<and>
   (import_module e (''segtypes.'' @ k) = ModuleNotFound \<and> ext_dir e = None \<longrightarrow>
      resolve_class e st k =
        Inl (SystemExit 1, st\<lparr>logged := logged st @ [LogError (could_not_load k)]\<rparr>)) \<and>
   sublist k (could_not_load k)"
  by (simp add: resolve_class_def find_segment_class_def get_base_segment_class_def
      get_extension_class_def sublist_could_not_load)

theorem handler_resolution_witness:
  "resolve_class example_env (init_state no_files) ''bin'' = Inr (bin_class, init_state no_files) \<and>
   resolve_class example_env (init_state no_files) ''img'' = Inr (img_class, init_state no_files) \<and>
   get_extension_class example_env ''foo'' = Inr (None, [LogError ''No such file or directory'']) \<and>
   resolve_class example_env (init_state no_files) ''foo'' =
     Inl (SystemExit 1,
          (init_state no_files)\<lparr>logged := logged (init_state no_files) @
             [LogError ''No such file or directory'', LogError (could_not_load ''foo'')]\<rparr>) \<and>
   resolve_class (example_env\<lparr>ext_dir := None\<rparr>) (init_state no_files) ''foo'' =
     Inl (SystemExit 1,
          (init_state no_files)\<lparr>logged := logged (init_state no_files) @
             [LogError (could_not_load ''foo'')]\<rparr>)"
proof -
  have 1: "import_module example_env (''segtypes.'' @ ''bin'') = Module [''N64SegBin'' \<mapsto> bin_class]"
    "getattr [''N64SegBin'' \<mapsto> bin_class] ''bin'' = Inr bin_class"
    by (simp_all add: example_env_def getattr_def class_name_def upper_def upper_char_def)
  have 2: "import_module example_env (''segtypes.'' @ ''img'') = ModuleNotFound"
    "ext_dir example_env = Some ''ext''"
    "load_extension example_env ''ext'' ''img'' = Loaded [''N64SegImg'' \<mapsto> img_class]"
    "getattr [''N64SegImg'' \<mapsto> img_class] ''img'' = Inr img_class"
    by (simp_all add: example_env_def getattr_def class_name_def upper_def upper_char_def)
  have 3: "import_module example_env (''segtypes.'' @ ''foo'') = ModuleNotFound"
    "load_extension example_env ''ext'' ''foo'' = LoadRaises ''No such file or directory''"
    by (simp_all add: example_env_def)
  have 4: "import_module (example_env\<lparr>ext_dir := None\<rparr>) (''segtypes.'' @ ''foo'') = ModuleNotFound"
    "ext_dir (example_env\<lparr>ext_dir := None\<rparr>) = None"
    by (simp_all add: example_env_def)
  show ?thesis
    using handler_resolution [of example_env "''bin''" "[''N64SegBin'' \<mapsto> bin_class]" bin_class
        "init_state no_files" "''ext''" "''x''"]
      handler_resolution [of example_env "''img''" "[''N64SegImg'' \<mapsto> img_class]" img_class
        "init_state no_files" "''ext''" "''x''"]
      handler_resolution [of example_env "''foo''" "Map.empty" bin_class
        "init_state no_files" "''ext''" "''No such file or directory''"]
      handler_resolution [of "example_env\<lparr>ext_dir := None\<rparr>" "''foo''" "Map.empty" bin_class
        "init_state no_files" "''ext''" "''x''"]
      1 2 3 4
    by simp
qed


section \<open>Skipped regions\<close>

text \<open>
  C1: when the loop reaches a region whose handler class is found and whose name passes
  the uniqueness check, then (a) if the region should run, the cache is not ignored and
  the fingerprint stored under its identity equals the fresh one, the iteration calls no
  \<open>split\<close>, leaves \<open>ran_segments\<close> (the segments of the post-processing pass)
  and \<open>ld_sections\<close> as they are and only reports the skip; (b) if the region should
  not run, the iteration calls no \<open>split\<close>, does not touch the cache and reports no
  skip, and appends the region's linker section to \<open>ld_sections\<close>.
\<close>

theorem skipped_regions:
  assumes "init_segments e True pre (init_state files) = Inr st"
    and "find_segment_class e (kind seg) = Inr (Some cls, out)"
    and "\<not> (require_unique_name cls \<and> name seg \<in> seen_segment_names st)"
  shows "(should_run seg (modes e) \<and> \<not> ignore_cache e \<and>
          map_of (cache st) (unique_id seg) = Some (cache_fp seg) \<longrightarrow>
            (\<exists>st'. init_segment e True (Region seg) st = Inr st' \<and>
                   split_calls st' = split_calls st \<and>
                   ran_segments st' = ran_segments st \<and>
                   postsplit_calls (postsplit_all st') = postsplit_calls st @ ran_segments st \<and>
                   ld_sections st' = ld_sections st \<and>
                   cache st' = cache st \<and>
                   logged st' = logged st @ out @ [LogDot ''skip''])) \<and>
         (\<not> should_run seg (modes e) \<longrightarrow>
            (\<exists>st'. init_segment e True (Region seg) st = Inr st' \<and>
                   split_calls st' = split_calls st \<and>
                   ran_segments st' = ran_segments st \<and>
                   cache st' = cache st \<and>
                   logged st' = logged st @ out \<and>
                   ld_sections st' = ld_sections st @ [get_ld_section seg]))"
proof -
  define st2 where "st2 = st\<lparr>logged := logged st @ out,
             seen_segment_names :=
               (if require_unique_name cls then insert (name seg) (seen_segment_names st)
                else seen_segment_names st)\<rparr>"
  obtain st3 where c: "count_size (bucket seg) (rom_length seg) st2 = Inr st3"
    by (simp add: count_size_eq)
  have step: "init_segment e True (Region seg) st = run_segment e cls seg st3"
    using init_segment_Region [OF assms(2,3)] c by (simp add: st2_def)
  from c have sel: "split_calls st3 = split_calls st" "ran_segments st3 = ran_segments st"
    "ld_sections st3 = ld_sections st" "cache st3 = cache st" "logged st3 = logged st @ out"
    "postsplit_calls st3 = postsplit_calls st"
    by (auto simp: count_size_eq st2_def)
  have "bucket seg \<in> dom (map_of (seg_sizes st3))"
    using count_size_doms(1) [OF c] by simp
  moreover have "dom (map_of (seg_sizes st2)) \<subseteq> dom (map_of (seg_cached st2))"
    using init_segments_counters [OF assms(1)] by (simp add: st2_def)
  ultimately have "bucket seg \<in> dom (map_of (seg_cached st3))"
    using count_size_doms(1,3,5) [OF c] by blast
  then obtain v where v: "map_of (seg_cached st3) (bucket seg) = Some v"
    by blast
  have a: ?thesis if "\<not> should_run seg (modes e)"
    using that step sel by (simp add: run_segment_no_run)
  have b: ?thesis if h: "should_run seg (modes e)" "\<not> ignore_cache e"
    "map_of (cache st) (unique_id seg) = Some (cache_fp seg)"
  proof -
    from h sel have "map_of (cache st3) (unique_id seg) = Some (cache_fp seg)" by simp
    from run_segment_skip [OF h(1,2) this v, of cls] step sel h show ?thesis
      by (simp add: postsplit_all_def)
  qed
  from a b show ?thesis by blast
qed

theorem skipped_regions_witness:
  "result_error (init_segments example_env True
       [Region (example_segment ''code'' ''a'' 0 1 [] [])] (init_state cached_files)) = None \<and>
   map_of (cache (result_state (init_segments example_env True
       [Region (example_segment ''code'' ''a'' 0 1 [] [])] (init_state cached_files)))) ''bin_b''
     = Some 7 \<and>
   (\<exists>st'. init_segment example_env True (Region (example_segment ''bin'' ''b'' 16 7 [] []))
            (result_state (init_segments example_env True
               [Region (example_segment ''code'' ''a'' 0 1 [] [])] (init_state cached_files)))
            = Inr st' \<and>
          split_calls st' = [example_segment ''code'' ''a'' 0 1 [] []] \<and>
          ran_segments st' = [example_segment ''code'' ''a'' 0 1 [] []] \<and>
          ld_sections st' = [''a\<newline>''] \<and>
          logged st' = [LogDot ''ok'', LogDot ''skip'']) \<and>
   (\<exists>st'. init_segment example_env True
            (Region ((example_segment ''bin'' ''b'' 16 7 [] [])\<lparr>should_run := (\<lambda>m. False)\<rparr>))
            (result_state (init_segments example_env True
               [Region (example_segment ''code'' ''a'' 0 1 [] [])] (init_state cached_files)))
            = Inr st' \<and>
          split_calls st' = [example_segment ''code'' ''a'' 0 1 [] []] \<and>
          ran_segments st' = [example_segment ''code'' ''a'' 0 1 [] []] \<and>
          logged st' = [LogDot ''ok''] \<and>
          ld_sections st' = [''a\<newline>'', ''b\<newline>''])"
proof -
  define A :: "nat segment" where "A = example_segment ''code'' ''a'' 0 1 [] []"
  define B :: "nat segment" where "B = example_segment ''bin'' ''b'' 16 7 [] []"
  define B' where "B' = B\<lparr>should_run := (\<lambda>m. False)\<rparr>"
  define r where "r = init_segments example_env True [Region A] (init_state cached_files)"
  define st where "st = result_state r"
  note defs = st_def r_def B'_def B_def A_def
  have ok: "result_error r = None"
    unfolding defs by code_simp
  have reach: "init_segments example_env True [Region A] (init_state cached_files) = Inr st"
    using result_Inr [OF ok] by (simp only: st_def r_def)
  have cls: "find_segment_class example_env (kind B) = Inr (Some bin_class, [])"
    "find_segment_class example_env (kind B') = Inr (Some bin_class, [])"
    by (simp_all add: find_segment_class_def get_base_segment_class_def example_env_def
        example_segment_def getattr_def class_name_def upper_def upper_char_def B_def B'_def)
  have uniq: "\<not> (require_unique_name bin_class \<and> name B \<in> seen_segment_names st)"
    "\<not> (require_unique_name bin_class \<and> name B' \<in> seen_segment_names st)"
    by (simp_all add: bin_class_def)
  have hit: "map_of (cache st) ''bin_b'' = Some 7"
    unfolding defs by code_simp
  have sel: "split_calls st = [A]" "ran_segments st = [A]" "ld_sections st = [''a\<newline>'']"
    "logged st = [LogDot ''ok'']" "postsplit_calls st = []"
    unfolding defs by (simp_all add: run_defs)
  have b: "should_run B (modes example_env)" "\<not> should_run B' (modes example_env)"
    "\<not> ignore_cache example_env"
    "unique_id B = ''bin_b''" "cache_fp B = 7" "get_ld_section B' = ''b\<newline>''"
    by (simp_all add: example_segment_def example_env_def mode_in_def B_def B'_def)
  have 1: "\<exists>st'. init_segment example_env True (Region B) st = Inr st' \<and>
          split_calls st' = [A] \<and> ran_segments st' = [A] \<and>
          ld_sections st' = [''a\<newline>''] \<and> logged st' = [LogDot ''ok'', LogDot ''skip'']"
    using skipped_regions [OF reach cls(1) uniq(1)] hit sel b by auto
  have 2: "\<exists>st'. init_segment example_env True (Region B') st = Inr st' \<and>
          split_calls st' = [A] \<and> ran_segments st' = [A] \<and>
          logged st' = [LogDot ''ok''] \<and> ld_sections st' = [''a\<newline>'', ''b\<newline>'']"
    using skipped_regions [OF reach cls(2) uniq(2)] sel b by auto
  from ok hit 1 2 show ?thesis
    unfolding defs by blast
qed


section \<open>Unique names\<close>

lemma run_segment_total:
  assumes "bucket seg \<in> dom (map_of (seg_split st))" "bucket seg \<in> dom (map_of (seg_cached st))"
  shows "\<exists>st'. run_segment e cls seg st = Inr st'"
proof -
  from assms obtain v w where v: "map_of (seg_split st) (bucket seg) = Some v"
    and w: "map_of (seg_cached st) (bucket seg) = Some w"
    by blast
  show ?thesis
  proof (cases "should_run seg (modes e)")
    case False
    then show ?thesis by (simp add: run_segment_no_run)
  next
    case True
    show ?thesis
    proof (cases "\<not> ignore_cache e \<and> map_of (cache st) (unique_id seg) = Some (cache_fp seg)")
      case True
      with \<open>should_run seg (modes e)\<close> w show ?thesis by (simp add: run_segment_skip)
    next
      case False
      with \<open>should_run seg (modes e)\<close> v run_segment_extract [of seg e st v cls] show ?thesis by auto
    qed
  qed
qed

text \<open>An iteration whose handler class is found and whose name passes the uniqueness
  check continues, in a state where the three dictionaries share their buckets.\<close>

lemma init_segment_total:
  assumes "dom (map_of (seg_sizes st)) \<subseteq> dom (map_of (seg_split st)) \<inter> dom (map_of (seg_cached st))"
    and "find_segment_class e (kind seg) = Inr (Some cls, out)"
    and "\<not> (require_unique_name cls \<and> name seg \<in> seen_segment_names st)"
  shows "\<exists>st'. init_segment e True (Region seg) st = Inr st'"
proof -
  define st2 where "st2 = st\<lparr>logged := logged st @ out,
             seen_segment_names :=
               (if require_unique_name cls then insert (name seg) (seen_segment_names st)
                else seen_segment_names st)\<rparr>"
  obtain st3 where c: "count_size (bucket seg) (rom_length seg) st2 = Inr st3"
    by (simp add: count_size_eq)
  have step: "init_segment e True (Region seg) st = run_segment e cls seg st3"
    using init_segment_Region [OF assms(2,3)] c by (simp add: st2_def)
  have "dom (map_of (seg_sizes st2)) \<subseteq> dom (map_of (seg_split st2)) \<inter> dom (map_of (seg_cached st2))"
    using assms(1) by (simp add: st2_def)
  then have "bucket seg \<in> dom (map_of (seg_split st3))" "bucket seg \<in> dom (map_of (seg_cached st3))"
    using count_size_doms(2-5) [OF c] by blast+
  from run_segment_total [OF this] step show ?thesis by simp
qed

text \<open>The set of names seen only grows, and holds the name of every region of a class
  that requires a unique name once its iteration has continued.\<close>

lemma count_size_seen:
  assumes "count_size tp len st = Inr st3"
  shows "seen_segment_names st3 = seen_segment_names st"
  using assms by (auto simp: count_size_eq)

lemma run_segment_seen:
  assumes "run_segment e cls seg st = Inr st'"
  shows "seen_segment_names st' = seen_segment_names st"
  using assms by (cases rule: run_segment_InrE) (simp_all add: fold_symbols_def)

lemma init_segment_seen:
  assumes "init_segment e hn d st = Inr st'"
  shows "seen_segment_names st \<subseteq> seen_segment_names st'"
  using assms
proof (cases rule: init_segment_InrE)
  case (1 a)
  then show ?thesis by simp
next
  case (2 seg cls out st3)
  have "seen_segment_names st' = seen_segment_names st3"
    using \<open>run_segment e cls seg st3 = Inr st'\<close> by (rule run_segment_seen)
  also have "\<dots> = (if require_unique_name cls then insert (name seg) (seen_segment_names st)
                else seen_segment_names st)"
    using count_size_seen [OF 2(5)] by simp
  finally show ?thesis by auto
qed

lemma init_segments_seen:
  assumes "init_segments e follows ds st = Inr st'"
  shows "seen_segment_names st \<subseteq> seen_segment_names st'"
proof (rule init_segments_invariant [OF assms, where P = "\<lambda>s. seen_segment_names st \<subseteq> seen_segment_names s"])
  show "seen_segment_names st \<subseteq> seen_segment_names st" by simp
next
  fix hn d s s'
  assume "seen_segment_names st \<subseteq> seen_segment_names s" "init_segment e hn d s = Inr s'"
  then show "seen_segment_names st \<subseteq> seen_segment_names s'"
    using init_segment_seen by blast
qed

lemma init_segment_seen_unique:
  assumes "init_segment e hn (Region seg) st = Inr st'"
    and "find_segment_class e (kind seg) = Inr (Some cls, out)"
    and "require_unique_name cls"
  shows "name seg \<in> seen_segment_names st'"
  using assms(1)
proof (cases rule: init_segment_InrE)
  case (1 a)
  then show ?thesis by simp
next
  case (2 seg' cls' out' st3)
  from \<open>Region seg = Region seg'\<close> have s: "seg' = seg" by simp
  from \<open>find_segment_class e (kind seg') = Inr (Some cls', out')\<close> assms(2) s
  have c: "cls' = cls" by simp
  have "seen_segment_names st' = seen_segment_names st3"
    using \<open>run_segment e cls' seg' st3 = Inr st'\<close> by (rule run_segment_seen)
  also have "\<dots> = (if require_unique_name cls' then insert (name seg') (seen_segment_names st)
                else seen_segment_names st)"
    using count_size_seen [OF 2(5)] by simp
  finally show ?thesis using s c assms(3) by simp
qed

text \<open>
  C8: let the loop reach a region \<open>b\<close> that is followed by a declaration and has the
  name of an earlier region \<open>a\<close>. If the classes of both require a unique name, the
  run stops at \<open>b\<close> with exit status 1, having logged that the name is not unique,
  and no file has been written, the cache file in particular. If the class of \<open>b\<close>
  does not require a unique name, the loop goes on past \<open>b\<close>.
\<close>

theorem duplicate_names:
  assumes "init_segments e True (pre @ Region a # mid) (init_state files) = Inr st"
    and "find_segment_class e (kind a) = Inr (Some cls_a, out_a)"
    and "find_segment_class e (kind b) = Inr (Some cls_b, out_b)"
    and "name b = name a"
    and "post \<noteq> []"
  shows "(require_unique_name cls_a \<and> require_unique_name cls_b \<longrightarrow>
            main e files (pre @ Region a # mid @ Region b # post) =
              Inl (SystemExit 1,
                   st\<lparr>logged := logged st @ out_b @ [LogError (not_unique (name b))]\<rparr>) \<and>
            fs st = files \<and> written st = []) \<and>
         (\<not> require_unique_name cls_b \<longrightarrow>
            (\<exists>st'. init_segments e True (pre @ Region a # mid @ [Region b]) (init_state files)
                     = Inr st'))"
proof -
  have outside: "fs st = files" "written st = []"
    using init_segments_outside [OF assms(1)] by (simp_all add: init_state_def)
  have split: "init_segments e follows ((pre @ Region a # mid) @ ys) (init_state files)
      = init_segments e follows ys st" if "ys \<noteq> []" for ys follows
    using assms(1) that by (simp add: init_segments_append del: append_assoc)
  have 1: "main e files (pre @ Region a # mid @ Region b # post) =
      Inl (SystemExit 1, st\<lparr>logged := logged st @ out_b @ [LogError (not_unique (name b))]\<rparr>)"
    if u: "require_unique_name cls_a" "require_unique_name cls_b"
  proof -
    from assms(1) obtain st_pre st_a where
      a: "init_segment e True (Region a) st_pre = Inr st_a"
      and mid: "init_segments e True mid st_a = Inr st"
      by (auto simp: init_segments_append split: sum.splits)
    from init_segment_seen_unique [OF a assms(2) u(1)] init_segments_seen [OF mid]
    have "name b \<in> seen_segment_names st"
      using assms(4) by auto
    from init_segment_not_unique [OF assms(3) u(2) this]
    have "init_segments e False (Region b # post) st =
      Inl (SystemExit 1, st\<lparr>logged := logged st @ out_b @ [LogError (not_unique (name b))]\<rparr>)"
      using assms(5) by simp
    with split [of "Region b # post" False] show ?thesis
      by (simp add: main_def)
  qed
  have 2: "\<exists>st'. init_segments e True (pre @ Region a # mid @ [Region b]) (init_state files) = Inr st'"
    if "\<not> require_unique_name cls_b"
  proof -
    from init_segment_total [OF init_segments_counters [OF assms(1)] assms(3)] that
    obtain st' where "init_segment e True (Region b) st = Inr st'"
      by auto
    then have "init_segments e True [Region b] st = Inr st'" by simp
    with split [of "[Region b]" True] show ?thesis by simp
  qed
  from 1 2 outside show ?thesis by blast
qed


theorem duplicate_names_witness:
  "result_error (init_segments example_env True
      [Region (example_segment ''code'' ''a'' 0 1 [] [])] (init_state no_files)) = None \<and>
   result_error (main example_env no_files
      [Region (example_segment ''code'' ''a'' 0 1 [] []),
       Region (example_segment ''img'' ''a'' 16 1 [] []), Sentinel 32]) = Some (SystemExit 1) \<and>
   logged (result_state (main example_env no_files
      [Region (example_segment ''code'' ''a'' 0 1 [] []),
       Region (example_segment ''img'' ''a'' 16 1 [] []), Sentinel 32])) =
     [LogDot ''ok'', LogError (not_unique ''a'')] \<and>
   written (result_state (main example_env no_files
      [Region (example_segment ''code'' ''a'' 0 1 [] []),
       Region (example_segment ''img'' ''a'' 16 1 [] []), Sentinel 32])) = [] \<and>
   (\<exists>st'. init_segments example_env True
      [Region (example_segment ''code'' ''a'' 0 1 [] []),
       Region (example_segment ''bin'' ''a'' 16 1 [] [])] (init_state no_files) = Inr st')"
proof -
  define A :: "nat segment" where "A = example_segment ''code'' ''a'' 0 1 [] []"
  define B :: "nat segment" where "B = example_segment ''img'' ''a'' 16 1 [] []"
  define B' :: "nat segment" where "B' = example_segment ''bin'' ''a'' 16 1 [] []"
  define r where "r = init_segments example_env True [Region A] (init_state no_files)"
  define st where "st = result_state r"
  note defs = st_def r_def B'_def B_def A_def
  have ok: "result_error r = None"
    unfolding defs by code_simp
  have reach: "init_segments example_env True ([] @ Region A # []) (init_state no_files) = Inr st"
    using result_Inr [OF ok] by (simp only: st_def r_def append_Nil)
  have cls: "find_segment_class example_env (kind A) = Inr (Some code_class, [])"
    "find_segment_class example_env (kind B) = Inr (Some img_class, [])"
    "find_segment_class example_env (kind B') = Inr (Some bin_class, [])"
    by (simp_all add: find_segment_class_def get_base_segment_class_def get_extension_class_def
        example_env_def example_segment_def getattr_def class_name_def upper_def upper_char_def
        A_def B_def B'_def)
  have nm: "name B = name A" "name B' = name A" "name A = ''a''"
    by (simp_all add: example_segment_def A_def B_def B'_def)
  have u: "require_unique_name code_class" "require_unique_name img_class"
    "\<not> require_unique_name bin_class"
    by (simp_all add: code_class_def img_class_def bin_class_def)
  have lg: "logged st = [LogDot ''ok'']"
    unfolding defs by code_simp
  have post: "[Sentinel 32 :: nat decl] \<noteq> []" by simp
  from duplicate_names [OF reach cls(1) cls(2) nm(1) post] u
  have 1: "main example_env no_files [Region A, Region B, Sentinel 32] =
      Inl (SystemExit 1, st\<lparr>logged := logged st @ [] @ [LogError (not_unique (name B))]\<rparr>)"
    and 2: "written st = []"
    by simp_all
  from duplicate_names [OF reach cls(1) cls(3) nm(2) post] u
  have 3: "\<exists>st'. init_segments example_env True [Region A, Region B'] (init_state no_files) = Inr st'"
    by simp
  have "result_error (main example_env no_files [Region A, Region B, Sentinel 32]) = Some (SystemExit 1)"
    "logged (result_state (main example_env no_files [Region A, Region B, Sentinel 32])) =
       [LogDot ''ok'', LogError (not_unique ''a'')]"
    "written (result_state (main example_env no_files [Region A, Region B, Sentinel 32])) = []"
    unfolding 1 by (simp_all add: result_error_def result_state_def lg 2 nm)
  with ok 3 show ?thesis
    unfolding defs by blast
qed


section \<open>The steps after the loop\<close>

lemma write_file_sel:
  "written (write_file f c st) = written st @ [f]"
  "fs (write_file f c st) = (fs st)(f \<mapsto> c)"
  "cache (write_file f c st) = cache st"
  "ld_sections (write_file f c st) = ld_sections st"
  "split_calls (write_file f c st) = split_calls st"
  "undefined_syms (write_file f c st) = undefined_syms st"
  "undefined_funcs (write_file f c st) = undefined_funcs st"
  "defined_funcs (write_file f c st) = defined_funcs st"
  "seg_sizes (write_file f c st) = seg_sizes st"
  by (simp_all add: write_file_def)

lemma postsplit_all_sel:
  "written (postsplit_all st) = written st"
  "fs (postsplit_all st) = fs st"
  "cache (postsplit_all st) = cache st"
  "ld_sections (postsplit_all st) = ld_sections st"
  "split_calls (postsplit_all st) = split_calls st"
  "undefined_syms (postsplit_all st) = undefined_syms st"
  "undefined_funcs (postsplit_all st) = undefined_funcs st"
  "defined_funcs (postsplit_all st) = defined_funcs st"
  "seg_sizes (postsplit_all st) = seg_sizes st"
  by (simp_all add: postsplit_all_def)

lemma ldscript_step_sel:
  "written (ldscript_step e st) =
     written st @ (if mode_in ''ld'' (modes e) \<or> mode_in ''all'' (modes e) then [LdScript] else [])"
  "fs (ldscript_step e st) =
     (if mode_in ''ld'' (modes e) \<or> mode_in ''all'' (modes e)
      then (fs st)(LdScript \<mapsto> Text (write_ldscript (ld_sections st) (ld_bare e)))
      else fs st)"
  "cache (ldscript_step e st) = cache st"
  "ld_sections (ldscript_step e st) = ld_sections st"
  "split_calls (ldscript_step e st) = split_calls st"
  "undefined_syms (ldscript_step e st) = undefined_syms st"
  "undefined_funcs (ldscript_step e st) = undefined_funcs st"
  "defined_funcs (ldscript_step e st) = defined_funcs st"
  "seg_sizes (ldscript_step e st) = seg_sizes st"
  by (simp_all add: ldscript_step_def write_file_sel)

lemma undefined_syms_step_sel:
  "written (undefined_syms_step st) =
     written st @ (if sorted_list_of_set (undefined_syms st) \<noteq> [] then [UndefinedSymsAuto] else [])"
  "fs (undefined_syms_step st) =
     (if sorted_list_of_set (undefined_syms st) \<noteq> []
      then (fs st)(UndefinedSymsAuto \<mapsto>
             Text (concat (map sym_line (sorted_list_of_set (undefined_syms st)))))
      else fs st)"
  "cache (undefined_syms_step st) = cache st"
  "ld_sections (undefined_syms_step st) = ld_sections st"
  "split_calls (undefined_syms_step st) = split_calls st"
  "seg_sizes (undefined_syms_step st) = seg_sizes st"
  by (simp_all add: undefined_syms_step_def write_file_sel Let_def)

lemma save_cache_sel:
  "written (save_cache st) = written st @ (if cache st \<noteq> [] then [SplatCache] else [])"
  "fs (save_cache st) =
     (if cache st \<noteq> [] then (fs st)(SplatCache \<mapsto> Pickled (cache st)) else fs st)"
  "cache (save_cache st) = cache st"
  "ld_sections (save_cache st) = ld_sections st"
  "split_calls (save_cache st) = split_calls st"
  by (simp_all add: save_cache_def write_file_sel)

lemma funcs_to_write_cong:
  assumes "undefined_funcs st' = undefined_funcs st" "defined_funcs st' = defined_funcs st"
  shows "funcs_to_write e st' = funcs_to_write e st"
  using assms by (simp add: funcs_to_write_def)

text \<open>The three outcomes of writing the unresolved functions.\<close>

lemma undefined_funcs_step_cases:
  obtains "funcs_to_write e st = []" "undefined_funcs_step e st = Inr st"
  | out where "funcs_to_write e st \<noteq> []"
      "undefined_funcs_step e st = Inr (write_file UndefinedFuncsAuto (Text out) st)"
  | err out where "funcs_to_write e st \<noteq> []"
      "undefined_funcs_step e st = Inl (err, write_file UndefinedFuncsAuto (Text out) st)"
proof (cases "funcs_to_write e st = []")
  case True
  then have "undefined_funcs_step e st = Inr st"
    by (simp add: undefined_funcs_step_def)
  with True that(1) show ?thesis by blast
next
  case False
  show ?thesis
  proof (cases "write_func_lines (funcs_to_write e st) []")
    case (Inl stop)
    obtain err out where "stop = (err, out)" by (cases stop)
    with Inl False have "undefined_funcs_step e st =
        Inl (err, write_file UndefinedFuncsAuto (Text out) st)"
      by (simp add: undefined_funcs_step_def Let_def)
    with False that(3) show ?thesis by blast
  next
    case (Inr out)
    with False have "undefined_funcs_step e st =
        Inr (write_file UndefinedFuncsAuto (Text out) st)"
      by (simp add: undefined_funcs_step_def Let_def)
    with False that(2) show ?thesis by blast
  qed
qed

text \<open>
  What \<open>finish\<close> has written when it ends, whatever the way: the linker script if the
  modes ask for it, the unresolved functions if there are any, and after that part of
  the unresolved symbols and the cache.
\<close>

lemma statistics_step_state: "result_state (statistics_step e st) = st"
  by (simp add: statistics_step_def result_state_def)

lemma finish_state_cases:
  obtains t where "result_state (finish e st) = t"
      "funcs_to_write e st = []" "t = undefined_syms_step (ldscript_step e (postsplit_all st))
        \<or> t = save_cache (undefined_syms_step (ldscript_step e (postsplit_all st)))"
  | out t where "result_state (finish e st) = t"
      "funcs_to_write e st \<noteq> []"
      "t = write_file UndefinedFuncsAuto (Text out) (ldscript_step e (postsplit_all st))
        \<or> t = undefined_syms_step
                (write_file UndefinedFuncsAuto (Text out) (ldscript_step e (postsplit_all st)))
        \<or> t = save_cache (undefined_syms_step
                (write_file UndefinedFuncsAuto (Text out) (ldscript_step e (postsplit_all st))))"
proof -
  let ?b = "ldscript_step e (postsplit_all st)"
  have ftw: "funcs_to_write e ?b = funcs_to_write e st"
    by (rule funcs_to_write_cong) (simp_all add: ldscript_step_sel postsplit_all_sel)
  have tail: "result_state (case statistics_step e s of Inl stop \<Rightarrow> Inl stop
                             | Inr st2 \<Rightarrow> Inr (save_cache st2)) = s
      \<or> result_state (case statistics_step e s of Inl stop \<Rightarrow> Inl stop
                             | Inr st2 \<Rightarrow> Inr (save_cache st2)) = save_cache s" for s :: "'a state"
    by (simp add: statistics_step_def result_state_def)
  show ?thesis
  proof (cases rule: undefined_funcs_step_cases [of e ?b])
    case 1
    with tail [of "undefined_syms_step ?b"] that(1) ftw show ?thesis
      by (auto simp: finish_def)
  next
    case (2 out)
    with tail [of "undefined_syms_step (write_file UndefinedFuncsAuto (Text out) ?b)"]
      that(2) [of _ out] ftw show ?thesis
      by (auto simp: finish_def)
  next
    case (3 err out)
    then have "result_state (finish e st) = write_file UndefinedFuncsAuto (Text out) ?b"
      by (simp add: finish_def result_state_def)
    with 3 that(2) [of _ out] ftw show ?thesis
      by auto
  qed
qed


section \<open>The linker script and the modes\<close>

lemma main_finish:
  assumes "init_segments e False ds (init_state files) = Inr st"
  shows "main e files ds = finish e st" "fs st = files" "written st = []"
  using assms init_segments_outside [OF assms] by (simp_all add: main_def init_state_def)

lemma regions_Cons: "regions (d # ds) = regions [d] @ regions ds"
  by (cases d) simp_all

lemma count_size_collect:
  assumes "count_size tp len st = Inr st3"
  shows "ld_sections st3 = ld_sections st" "cache st3 = cache st"
  using assms by (auto simp: count_size_eq)

text \<open>What one iteration adds to the sections, and what it leaves in the cache.\<close>

lemma init_segment_collected:
  assumes "init_segment e hn d st = Inr st'"
  shows "ld_sections st' @ collected_sections e (cache st') ss =
           ld_sections st @ collected_sections e (cache st) (regions [d] @ ss)"
  using assms
proof (cases rule: init_segment_InrE)
  case (1 a)
  then show ?thesis by simp
next
  case (2 seg cls out st3)
  have c: "ld_sections st3 = ld_sections st" "cache st3 = cache st"
    using count_size_collect [OF 2(5)] by simp_all
  from \<open>run_segment e cls seg st3 = Inr st'\<close> show ?thesis
  proof (cases rule: run_segment_InrE)
    case (1 v)
    then show ?thesis
      using c \<open>d = Region seg\<close> by simp
  next
    case 2
    then show ?thesis
      using c \<open>d = Region seg\<close> by simp
  next
    case (3 v)
    have "ld_sections st' = ld_sections st @ [get_ld_section seg]"
      "cache st' = AList.update (unique_id seg) (cache_fp seg) (cache st)"
      using 3(3) c by (simp_all add: fold_symbols_def)
    with 3(1,2) c \<open>d = Region seg\<close> show ?thesis
      by auto
  qed
qed

lemma init_segments_collected:
  assumes "init_segments e follows ds st = Inr st'"
  shows "ld_sections st' = ld_sections st @ collected_sections e (cache st) (regions ds)"
  using assms
proof (induction ds arbitrary: st)
  case Nil
  then show ?case by simp
next
  case (Cons d ds)
  from Cons.prems obtain s where s: "init_segment e (ds \<noteq> [] \<or> follows) d st = Inr s"
    and rest: "init_segments e follows ds s = Inr st'"
    by (auto split: sum.splits)
  have "ld_sections st' = ld_sections s @ collected_sections e (cache s) (regions ds)"
    using Cons.IH [OF rest] .
  also have "\<dots> = ld_sections st @ collected_sections e (cache st) (regions [d] @ regions ds)"
    using s by (rule init_segment_collected)
  finally show ?case
    by (simp add: regions_Cons [of d ds])
qed

lemma collected_sections_ignore_cache:
  "ignore_cache e \<Longrightarrow> collected_sections e c ss = map get_ld_section ss"
  by (induction ss arbitrary: c) simp_all

text \<open>
  C10: when the segment loop has completed, the linker script is written if and only if
  the modes hold \<open>ld\<close> or \<open>all\<close> (as an element of the list, or as a substring when
  the modes are the default string). Written or not, the descriptors the run has
  collected are those of all regions declared, in order, but the regions skipped on a
  cache hit; in a run that ignores the cache they are the descriptors of all regions.
\<close>

theorem ldscript_written_iff_mode:
  assumes "init_segments e False ds (init_state files) = Inr st"
  shows "(LdScript \<in> set (written (result_state (main e files ds)))) =
           (case modes e of
              ModesList l \<Rightarrow> ''ld'' \<in> set l \<or> ''all'' \<in> set l
            | ModesStr s \<Rightarrow> sublist ''ld'' s \<or> sublist ''all'' s) \<and>
         fs (result_state (main e files ds)) LdScript =
           (if LdScript \<in> set (written (result_state (main e files ds)))
            then Some (Text (write_ldscript (ld_sections st) (ld_bare e)))
            else files LdScript) \<and>
         ld_sections (result_state (main e files ds)) = ld_sections st \<and>
         ld_sections st = collected_sections e (load_cache files) (regions ds) \<and>
         (ignore_cache e \<longrightarrow> ld_sections st = map get_ld_section (regions ds))"
proof -
  note m = main_finish [OF assms]
  let ?c = "mode_in ''ld'' (modes e) \<or> mode_in ''all'' (modes e)"
  have c: "?c = (case modes e of
              ModesList l \<Rightarrow> ''ld'' \<in> set l \<or> ''all'' \<in> set l
            | ModesStr s \<Rightarrow> sublist ''ld'' s \<or> sublist ''all'' s)"
    by (simp add: mode_in_def split: modes.splits)
  note sel = write_file_sel undefined_syms_step_sel save_cache_sel ldscript_step_sel
    postsplit_all_sel
  have 1: "(LdScript \<in> set (written (result_state (finish e st)))) = ?c \<and>
        fs (result_state (finish e st)) LdScript =
           (if ?c then Some (Text (write_ldscript (ld_sections st) (ld_bare e)))
            else files LdScript) \<and>
        ld_sections (result_state (finish e st)) = ld_sections st"
  proof (cases rule: finish_state_cases [of e st])
    case (1 t)
    from 1(3) show ?thesis
      unfolding 1(1) by (elim disjE) (simp_all add: sel m)
  next
    case (2 t out)
    from 2(3) show ?thesis
      unfolding 2(1) by (elim disjE) (simp_all add: sel m)
  qed
  have 2: "ld_sections st = collected_sections e (load_cache files) (regions ds)"
    using init_segments_collected [OF assms] by (simp add: init_state_def)
  have 3: "ld_sections st = map get_ld_section (regions ds)" if "ignore_cache e"
    using 2 that by (simp add: collected_sections_ignore_cache)
  from 1 2 3 c m(1) show ?thesis
    by simp
qed

theorem ldscript_written_iff_mode_witness:
  "result_error (init_segments example_env False
      [Region (example_segment ''code'' ''a'' 0 1 [] []),
       Region (example_segment ''bin'' ''b'' 16 2 [] []), Sentinel 32] (init_state no_files)) = None \<and>
   LdScript \<in> set (written (result_state (main example_env no_files
      [Region (example_segment ''code'' ''a'' 0 1 [] []),
       Region (example_segment ''bin'' ''b'' 16 2 [] []), Sentinel 32]))) \<and>
   result_error (init_segments (example_env\<lparr>modes := ModesList [''code'']\<rparr>) False
      [Region (example_segment ''code'' ''a'' 0 1 [] []),
       Region (example_segment ''bin'' ''b'' 16 2 [] []), Sentinel 32] (init_state no_files)) = None \<and>
   map name (split_calls (result_state (main (example_env\<lparr>modes := ModesList [''code'']\<rparr>) no_files
      [Region (example_segment ''code'' ''a'' 0 1 [] []),
       Region (example_segment ''bin'' ''b'' 16 2 [] []), Sentinel 32]))) = [''a''] \<and>
   LdScript \<notin> set (written (result_state (main (example_env\<lparr>modes := ModesList [''code'']\<rparr>) no_files
      [Region (example_segment ''code'' ''a'' 0 1 [] []),
       Region (example_segment ''bin'' ''b'' 16 2 [] []), Sentinel 32]))) \<and>
   fs (result_state (main (example_env\<lparr>modes := ModesList [''code'']\<rparr>) no_files
      [Region (example_segment ''code'' ''a'' 0 1 [] []),
       Region (example_segment ''bin'' ''b'' 16 2 [] []), Sentinel 32])) LdScript = None \<and>
   ld_sections (result_state (main (example_env\<lparr>modes := ModesList [''code'']\<rparr>) no_files
      [Region (example_segment ''code'' ''a'' 0 1 [] []),
       Region (example_segment ''bin'' ''b'' 16 2 [] []), Sentinel 32])) = [''a\<newline>'', ''b\<newline>''] \<and>
   ignore_cache (example_env\<lparr>modes := ModesList [''bin''], ignore_cache := True\<rparr>) \<and>
   result_error (init_segments (example_env\<lparr>modes := ModesList [''bin''], ignore_cache := True\<rparr>) False
      [Region (example_segment ''bin'' ''b'' 0 7 [] []),
       Region (example_segment ''code'' ''a'' 16 1 [] []), Sentinel 32] (init_state cached_files)) = None \<and>
   ld_sections (result_state (main (example_env\<lparr>modes := ModesList [''bin''], ignore_cache := True\<rparr>)
      cached_files
      [Region (example_segment ''bin'' ''b'' 0 7 [] []),
       Region (example_segment ''code'' ''a'' 16 1 [] []), Sentinel 32])) = [''b\<newline>'', ''a\<newline>'']"
proof -
  define ds :: "nat decl list" where
    "ds = [Region (example_segment ''code'' ''a'' 0 1 [] []),
           Region (example_segment ''bin'' ''b'' 16 2 [] []), Sentinel 32]"
  define ds3 :: "nat decl list" where
    "ds3 = [Region (example_segment ''bin'' ''b'' 0 7 [] []),
            Region (example_segment ''code'' ''a'' 16 1 [] []), Sentinel 32]"
  define e2 where "e2 = example_env\<lparr>modes := ModesList [''code'']\<rparr>"
  define e3 where "e3 = example_env\<lparr>modes := ModesList [''bin''], ignore_cache := True\<rparr>"
  define r1 where "r1 = init_segments example_env False ds (init_state no_files)"
  define r2 where "r2 = init_segments e2 False ds (init_state no_files)"
  define r3 where "r3 = init_segments e3 False ds3 (init_state cached_files)"
  define st1 where "st1 = result_state r1"
  define st2 where "st2 = result_state r2"
  define st3 where "st3 = result_state r3"
  note defs = st1_def st2_def st3_def r1_def r2_def r3_def e2_def e3_def ds_def ds3_def
  have ok: "result_error r1 = None" "result_error r2 = None" "result_error r3 = None"
    unfolding defs by code_simp+
  have reach1: "init_segments example_env False ds (init_state no_files) = Inr st1"
    using result_Inr [OF ok(1)] by (simp only: st1_def r1_def)
  have reach2: "init_segments e2 False ds (init_state no_files) = Inr st2"
    using result_Inr [OF ok(2)] by (simp only: st2_def r2_def)
  have reach3: "init_segments e3 False ds3 (init_state cached_files) = Inr st3"
    using result_Inr [OF ok(3)] by (simp only: st3_def r3_def)
  have md: "modes example_env = ModesList [''all'']" "modes e2 = ModesList [''code'']"
    "ignore_cache e3"
    by (simp_all add: example_env_def e2_def e3_def)
  have nf: "no_files LdScript = None" by (simp add: no_files_def)
  have rg: "map get_ld_section (regions ds) = [''a\<newline>'', ''b\<newline>'']"
    "map get_ld_section (regions ds3) = [''b\<newline>'', ''a\<newline>'']"
    by (simp_all add: ds_def ds3_def example_segment_def)
  have sc: "map name (split_calls (result_state (main e2 no_files ds))) = [''a'']"
    unfolding defs by code_simp
  have l2: "ld_sections st2 = [''a\<newline>'', ''b\<newline>'']"
    unfolding defs by code_simp
  from ldscript_written_iff_mode [OF reach1]
  have 1: "LdScript \<in> set (written (result_state (main example_env no_files ds)))"
    by (simp add: md)
  from ldscript_written_iff_mode [OF reach2]
  have 2: "LdScript \<notin> set (written (result_state (main e2 no_files ds)))"
    "fs (result_state (main e2 no_files ds)) LdScript = None"
    "ld_sections (result_state (main e2 no_files ds)) = [''a\<newline>'', ''b\<newline>'']"
    by (simp_all add: md nf l2)
  from ldscript_written_iff_mode [OF reach3] md(3)
  have "ld_sections (result_state (main e3 cached_files ds3)) = ld_sections st3"
    "ld_sections st3 = map get_ld_section (regions ds3)"
    by blast+
  then have 3: "ld_sections (result_state (main e3 cached_files ds3)) = [''b\<newline>'', ''a\<newline>'']"
    by (simp only: rg)
  from ok 1 2 3 sc md(3) show ?thesis
    unfolding defs by blast
qed

section \<open>The export files\<close>

text \<open>
  C9: when the segment loop has completed, the unresolved-function file is opened for
  writing exactly when the list of names to write is not empty, and the
  unresolved-symbol file only when its list is not empty; a file whose list is empty
  keeps the content it had before the run.
\<close>

theorem export_files_only_when_nonempty:
  assumes "init_segments e False ds (init_state files) = Inr st"
  shows "(UndefinedFuncsAuto \<in> set (written (result_state (main e files ds)))) =
           (funcs_to_write e st \<noteq> []) \<and>
         (funcs_to_write e st = [] \<longrightarrow>
            fs (result_state (main e files ds)) UndefinedFuncsAuto = files UndefinedFuncsAuto) \<and>
         (UndefinedSymsAuto \<in> set (written (result_state (main e files ds))) \<longrightarrow>
            sorted_list_of_set (undefined_syms st) \<noteq> []) \<and>
         (sorted_list_of_set (undefined_syms st) = [] \<longrightarrow>
            fs (result_state (main e files ds)) UndefinedSymsAuto = files UndefinedSymsAuto)"
proof -
  note m = main_finish [OF assms]
  note sel = write_file_sel undefined_syms_step_sel save_cache_sel ldscript_step_sel
    postsplit_all_sel
  have "(UndefinedFuncsAuto \<in> set (written (result_state (finish e st)))) =
           (funcs_to_write e st \<noteq> []) \<and>
         (funcs_to_write e st = [] \<longrightarrow>
            fs (result_state (finish e st)) UndefinedFuncsAuto = files UndefinedFuncsAuto) \<and>
         (UndefinedSymsAuto \<in> set (written (result_state (finish e st))) \<longrightarrow>
            sorted_list_of_set (undefined_syms st) \<noteq> []) \<and>
         (sorted_list_of_set (undefined_syms st) = [] \<longrightarrow>
            fs (result_state (finish e st)) UndefinedSymsAuto = files UndefinedSymsAuto)"
  proof (cases rule: finish_state_cases [of e st])
    case (1 t)
    from 1(3) show ?thesis
      unfolding 1(1) using 1(2) by (elim disjE) (simp_all add: sel m)
  next
    case (2 t out)
    from 2(3) show ?thesis
      unfolding 2(1) using 2(2) by (elim disjE) (simp_all add: sel m)
  qed
  with m(1) show ?thesis by simp
qed

theorem export_files_only_when_nonempty_witness:
  "result_error (init_segments example_env False
      [Region (example_segment ''code'' ''a'' 0 1 [] []),
       Region (example_segment ''bin'' ''b'' 16 2 [] []), Sentinel 32] (init_state stale_files)) = None \<and>
   UndefinedFuncsAuto \<notin> set (written (result_state (main example_env stale_files
      [Region (example_segment ''code'' ''a'' 0 1 [] []),
       Region (example_segment ''bin'' ''b'' 16 2 [] []), Sentinel 32]))) \<and>
   fs (result_state (main example_env stale_files
      [Region (example_segment ''code'' ''a'' 0 1 [] []),
       Region (example_segment ''bin'' ''b'' 16 2 [] []), Sentinel 32])) UndefinedFuncsAuto =
     Some (Text ''func_80000400 = 0x80000400;\<newline>'') \<and>
   fs (result_state (main example_env stale_files
      [Region (example_segment ''code'' ''a'' 0 1 [] []),
       Region (example_segment ''bin'' ''b'' 16 2 [] []), Sentinel 32])) UndefinedSymsAuto =
     Some (Text ''D_80000500 = 0x80000500;\<newline>'') \<and>
   UndefinedFuncsAuto \<in> set (written (result_state (main example_env stale_files
      [Region ((example_segment ''code'' ''a'' 0 1 [] [''func_80001000''])
                 \<lparr>undefined_syms_to_add := [''D_80000010'']\<rparr>),
       Region (example_segment ''bin'' ''b'' 16 2 [] []), Sentinel 32]))) \<and>
   UndefinedSymsAuto \<in> set (written (result_state (main example_env stale_files
      [Region ((example_segment ''code'' ''a'' 0 1 [] [''func_80001000''])
                 \<lparr>undefined_syms_to_add := [''D_80000010'']\<rparr>),
       Region (example_segment ''bin'' ''b'' 16 2 [] []), Sentinel 32]))) \<and>
   sorted_list_of_set (undefined_syms (result_state (init_segments example_env False
      [Region ((example_segment ''code'' ''a'' 0 1 [] [''func_80001000''])
                 \<lparr>undefined_syms_to_add := [''D_80000010'']\<rparr>),
       Region (example_segment ''bin'' ''b'' 16 2 [] []), Sentinel 32] (init_state stale_files))))
     \<noteq> []"
proof -
  define ds1 :: "nat decl list" where
    "ds1 = [Region (example_segment ''code'' ''a'' 0 1 [] []),
            Region (example_segment ''bin'' ''b'' 16 2 [] []), Sentinel 32]"
  define ds2 :: "nat decl list" where
    "ds2 = [Region ((example_segment ''code'' ''a'' 0 1 [] [''func_80001000''])
                 \<lparr>undefined_syms_to_add := [''D_80000010'']\<rparr>),
            Region (example_segment ''bin'' ''b'' 16 2 [] []), Sentinel 32]"
  define r1 where "r1 = init_segments example_env False ds1 (init_state stale_files)"
  define r2 where "r2 = init_segments example_env False ds2 (init_state stale_files)"
  define st1 where "st1 = result_state r1"
  define st2 where "st2 = result_state r2"
  note defs = st1_def st2_def r1_def r2_def ds1_def ds2_def
  have ok: "result_error r1 = None" "result_error r2 = None"
    unfolding defs by code_simp+
  have reach1: "init_segments example_env False ds1 (init_state stale_files) = Inr st1"
    using result_Inr [OF ok(1)] by (simp only: st1_def r1_def)
  have reach2: "init_segments example_env False ds2 (init_state stale_files) = Inr st2"
    using result_Inr [OF ok(2)] by (simp only: st2_def r2_def)
  have empty: "funcs_to_write example_env st1 = []" "sorted_list_of_set (undefined_syms st1) = []"
    unfolding defs by code_simp+
  have nonempty: "funcs_to_write example_env st2 = [''func_80001000'']"
    unfolding defs by code_simp
  have syms: "UndefinedSymsAuto \<in> set (written (result_state (main example_env stale_files ds2)))"
    unfolding defs by code_simp
  have stale: "stale_files UndefinedFuncsAuto = Some (Text ''func_80000400 = 0x80000400;\<newline>'')"
    "stale_files UndefinedSymsAuto = Some (Text ''D_80000500 = 0x80000500;\<newline>'')"
    by (simp_all add: stale_files_def)
  from export_files_only_when_nonempty [OF reach1] empty stale
  have 1: "UndefinedFuncsAuto \<notin> set (written (result_state (main example_env stale_files ds1)))"
    "fs (result_state (main example_env stale_files ds1)) UndefinedFuncsAuto =
       Some (Text ''func_80000400 = 0x80000400;\<newline>'')"
    "fs (result_state (main example_env stale_files ds1)) UndefinedSymsAuto =
       Some (Text ''D_80000500 = 0x80000500;\<newline>'')"
    by simp_all
  from export_files_only_when_nonempty [OF reach2] nonempty syms
  have 2: "UndefinedFuncsAuto \<in> set (written (result_state (main example_env stale_files ds2)))"
    "sorted_list_of_set (undefined_syms st2) \<noteq> []"
    by simp_all
  from ok(1) 1 2 syms show ?thesis
    unfolding defs by blast
qed

section \<open>The persisted cache\<close>

lemma count_size_other:
  assumes "count_size tp len st = Inr st3"
  shows "split_calls st3 = split_calls st" "cache st3 = cache st"
    "ran_segments st3 = ran_segments st" "defined_funcs st3 = defined_funcs st"
    "undefined_funcs st3 = undefined_funcs st" "undefined_syms st3 = undefined_syms st"
  using assms by (auto simp: count_size_eq)

text \<open>An iteration either leaves the cache and the list of extracted segments as they
  are, or extracts a segment and stores its fingerprint.\<close>

lemma init_segment_cache:
  assumes "init_segment e hn d st = Inr st'"
  shows "(split_calls st' = split_calls st \<and> cache st' = cache st) \<or>
         (split_calls st' \<noteq> [] \<and> cache st' \<noteq> [])"
  using assms
proof (cases rule: init_segment_InrE)
  case (1 a)
  then show ?thesis by simp
next
  case (2 seg cls out st3)
  have c: "split_calls st3 = split_calls st" "cache st3 = cache st"
    using count_size_other(1,2) [OF 2(5)] by simp_all
  from \<open>run_segment e cls seg st3 = Inr st'\<close> show ?thesis
    by (cases rule: run_segment_InrE) (simp_all add: fold_symbols_def c)
qed

lemma init_segments_cache:
  assumes "init_segments e follows ds (init_state files) = Inr st"
  shows "(split_calls st = [] \<longrightarrow> cache st = load_cache files) \<and>
         (split_calls st \<noteq> [] \<longrightarrow> cache st \<noteq> [])"
proof (rule init_segments_invariant [OF assms,
        where P = "\<lambda>s. (split_calls s = [] \<longrightarrow> cache s = load_cache files) \<and>
                       (split_calls s \<noteq> [] \<longrightarrow> cache s \<noteq> [])"])
  show "(split_calls (init_state files) = [] \<longrightarrow> cache (init_state files) = load_cache files) \<and>
        (split_calls (init_state files) \<noteq> [] \<longrightarrow> cache (init_state files) \<noteq> [])"
    by (simp add: init_state_def)
next
  fix hn d s s'
  assume "(split_calls s = [] \<longrightarrow> cache s = load_cache files) \<and>
          (split_calls s \<noteq> [] \<longrightarrow> cache s \<noteq> [])"
    and "init_segment e hn d s = Inr s'"
  then show "(split_calls s' = [] \<longrightarrow> cache s' = load_cache files) \<and>
          (split_calls s' \<noteq> [] \<longrightarrow> cache s' \<noteq> [])"
    using init_segment_cache [of e hn d s s'] by auto
qed

text \<open>A run that completes ends with saving the cache.\<close>

lemma finish_Inr:
  assumes "finish e st = Inr st'"
  obtains s where "st' = save_cache s" "cache s = cache st" "split_calls s = split_calls st"
    "SplatCache \<in> set (written s) \<longleftrightarrow> SplatCache \<in> set (written st)"
    "fs s SplatCache = fs st SplatCache"
proof -
  let ?b = "ldscript_step e (postsplit_all st)"
  note sel = write_file_sel undefined_syms_step_sel ldscript_step_sel postsplit_all_sel
  from assms obtain s1 where s1: "undefined_funcs_step e ?b = Inr s1"
    and st': "st' = save_cache (undefined_syms_step s1)"
    by (auto simp: finish_def statistics_step_def split: sum.splits if_splits)
  have "s1 = ?b \<or> (\<exists>out. s1 = write_file UndefinedFuncsAuto (Text out) ?b)"
    using s1 by (cases rule: undefined_funcs_step_cases [of e ?b]) auto
  then have "cache (undefined_syms_step s1) = cache st \<and>
      split_calls (undefined_syms_step s1) = split_calls st \<and>
      (SplatCache \<in> set (written (undefined_syms_step s1)) \<longleftrightarrow> SplatCache \<in> set (written st)) \<and>
      fs (undefined_syms_step s1) SplatCache = fs st SplatCache"
    by (auto simp: sel)
  with st' that show ?thesis by blast
qed

text \<open>
  C3, amended: at the end of a completed run the cache file is rewritten if and only if
  the cache map is not empty, that is, if and only if the cache loaded at the start had
  an entry or some region was extracted, and so had its fingerprint stored, during the
  run. A completed run in which no region was extracted rewrites the file with the map
  it loaded as soon as that map has an entry.
\<close>

theorem cache_rewritten_iff_nonempty:
  assumes "main e files ds = Inr st'"
  shows "(SplatCache \<in> set (written st')) = (cache st' \<noteq> []) \<and>
         (cache st' \<noteq> []) = (load_cache files \<noteq> [] \<or> split_calls st' \<noteq> []) \<and>
         fs st' SplatCache =
           (if cache st' \<noteq> [] then Some (Pickled (cache st')) else files SplatCache) \<and>
         (split_calls st' = [] \<longrightarrow> cache st' = load_cache files)"
proof -
  from assms obtain st where loop: "init_segments e False ds (init_state files) = Inr st"
    and fin: "finish e st = Inr st'"
    by (auto simp: main_def split: sum.splits)
  note m = main_finish [OF loop]
  note c = init_segments_cache [OF loop]
  from fin obtain s where s: "st' = save_cache s" "cache s = cache st"
    "split_calls s = split_calls st"
    "SplatCache \<in> set (written s) \<longleftrightarrow> SplatCache \<in> set (written st)"
    "fs s SplatCache = fs st SplatCache"
    by (rule finish_Inr)
  have 1: "cache st' = cache st" "split_calls st' = split_calls st"
    using s by (simp_all add: save_cache_sel)
  have 2: "(SplatCache \<in> set (written st')) = (cache st \<noteq> [])"
    using s m by (simp add: save_cache_sel)
  have 3: "fs st' SplatCache =
      (if cache st \<noteq> [] then Some (Pickled (cache st)) else files SplatCache)"
    using s m by (simp add: save_cache_sel)
  from c 1 2 3 show ?thesis
    by auto
qed


text \<open>
  C3, as stated, fails: with the cache of an earlier run on disk, a run in which the
  only region checked has the stored fingerprint and no region is extracted completes
  and writes the cache file again.
\<close>

theorem cache_rewritten_without_change:
  "result_error (main example_env cached_files
      [Region (example_segment ''bin'' ''b'' 0 7 [] []),
       Region ((example_segment ''bin'' ''c'' 16 0 [] [])\<lparr>should_run := (\<lambda>m. False)\<rparr>),
       Sentinel 32]) = None \<and>
   split_calls (result_state (main example_env cached_files
      [Region (example_segment ''bin'' ''b'' 0 7 [] []),
       Region ((example_segment ''bin'' ''c'' 16 0 [] [])\<lparr>should_run := (\<lambda>m. False)\<rparr>),
       Sentinel 32])) = [] \<and>
   logged (result_state (main example_env cached_files
      [Region (example_segment ''bin'' ''b'' 0 7 [] []),
       Region ((example_segment ''bin'' ''c'' 16 0 [] [])\<lparr>should_run := (\<lambda>m. False)\<rparr>),
       Sentinel 32])) = [LogDot ''skip''] \<and>
   load_cache cached_files = [(''bin_b'', 7)] \<and>
   cache (result_state (main example_env cached_files
      [Region (example_segment ''bin'' ''b'' 0 7 [] []),
       Region ((example_segment ''bin'' ''c'' 16 0 [] [])\<lparr>should_run := (\<lambda>m. False)\<rparr>),
       Sentinel 32])) = [(''bin_b'', 7)] \<and>
   written (result_state (main example_env cached_files
      [Region (example_segment ''bin'' ''b'' 0 7 [] []),
       Region ((example_segment ''bin'' ''c'' 16 0 [] [])\<lparr>should_run := (\<lambda>m. False)\<rparr>),
       Sentinel 32])) = [LdScript, SplatCache]"
  by code_simp

theorem cache_rewritten_iff_nonempty_witness:
  "result_error (main example_env no_files
      [Region (example_segment ''code'' ''a'' 0 1 [] []),
       Region (example_segment ''bin'' ''b'' 16 2 [] []), Sentinel 32]) = None \<and>
   cache (result_state (main example_env no_files
      [Region (example_segment ''code'' ''a'' 0 1 [] []),
       Region (example_segment ''bin'' ''b'' 16 2 [] []), Sentinel 32])) =
     [(''code_a'', 1), (''bin_b'', 2)] \<and>
   SplatCache \<in> set (written (result_state (main example_env no_files
      [Region (example_segment ''code'' ''a'' 0 1 [] []),
       Region (example_segment ''bin'' ''b'' 16 2 [] []), Sentinel 32]))) \<and>
   fs (result_state (main example_env no_files
      [Region (example_segment ''code'' ''a'' 0 1 [] []),
       Region (example_segment ''bin'' ''b'' 16 2 [] []), Sentinel 32])) SplatCache =
     Some (Pickled [(''code_a'', 1), (''bin_b'', 2)]) \<and>
   split_calls (result_state (main example_env no_files
      [Region (example_segment ''code'' ''a'' 0 1 [] []),
       Region (example_segment ''bin'' ''b'' 16 2 [] []), Sentinel 32])) \<noteq> []"
proof -
  define ds :: "nat decl list" where
    "ds = [Region (example_segment ''code'' ''a'' 0 1 [] []),
           Region (example_segment ''bin'' ''b'' 16 2 [] []), Sentinel 32]"
  define r where "r = main example_env no_files ds"
  define st' where "st' = result_state r"
  note defs = st'_def r_def ds_def
  have ok: "result_error r = None"
    unfolding defs by code_simp
  have fin: "main example_env no_files ds = Inr st'"
    using result_Inr [OF ok] by (simp only: st'_def r_def)
  have c: "cache st' = [(''code_a'', 1), (''bin_b'', 2)]"
    unfolding defs by code_simp
  have l: "load_cache no_files = []"
    by (simp add: load_cache_def no_files_def)
  from cache_rewritten_iff_nonempty [OF fin] c l
  have "SplatCache \<in> set (written st')"
    "fs st' SplatCache = Some (Pickled [(''code_a'', 1), (''bin_b'', 2)])"
    "split_calls st' \<noteq> []"
    by simp_all
  with ok c show ?thesis
    unfolding defs by blast
qed


section \<open>Run statistics\<close>

lemma sum_update:
  assumes "distinct (map fst d)"
  shows "sum_list (map snd (AList.update k ((case map_of d k of None \<Rightarrow> 0 | Some v \<Rightarrow> v) + n) d))
           = sum_list (map snd d) + (n::int)"
  using assms
proof (induction d)
  case Nil
  then show ?case by simp
next
  case (Cons p d)
  obtain k' v' where p: "p = (k', v')" by (cases p)
  show ?case
  proof (cases "k' = k")
    case True
    with Cons.prems p have "map_of d k = None"
      by (simp add: map_of_eq_None_iff)
    with True p show ?thesis by simp
  next
    case False
    with Cons p show ?thesis by simp
  qed
qed

lemma sum_split_bucket:
  assumes "distinct (map fst d)"
  shows "(case map_of d k of None \<Rightarrow> 0 | Some n \<Rightarrow> n)
           + sum_list (map snd (filter (\<lambda>(tp, n). tp \<noteq> k) d)) = sum_list (map snd d :: int list)"
  using assms
proof (induction d)
  case Nil
  then show ?case by simp
next
  case (Cons p d)
  obtain k' v' where p: "p = (k', v')" by (cases p)
  show ?case
  proof (cases "k' = k")
    case True
    with Cons.prems p have n: "map_of d k = None"
      by (simp add: map_of_eq_None_iff)
    with Cons.IH Cons.prems have "sum_list (map snd (filter (\<lambda>(tp, n). tp \<noteq> k) d)) = sum_list (map snd d)"
      by simp
    with True p show ?thesis by simp
  next
    case False
    with Cons p show ?thesis by simp
  qed
qed

text \<open>The sizes counted by the loop add up to the lengths of the regions it went through.\<close>

lemma count_size_sum:
  assumes "count_size tp len st = Inr st3" "distinct (map fst (seg_sizes st))"
  shows "distinct (map fst (seg_sizes st3))"
    and "sum_list (map snd (seg_sizes st3)) = sum_list (map snd (seg_sizes st)) + len"
proof -
  from assms(1) have sz: "seg_sizes st3 =
      AList.update tp ((case map_of (seg_sizes st) tp of None \<Rightarrow> 0 | Some v \<Rightarrow> v) + len) (seg_sizes st)"
    by (auto simp: count_size_eq)
  show "distinct (map fst (seg_sizes st3))"
    using assms(2) by (simp add: sz distinct_update)
  show "sum_list (map snd (seg_sizes st3)) = sum_list (map snd (seg_sizes st)) + len"
    unfolding sz by (rule sum_update [OF assms(2)])
qed

lemma init_segment_sum:
  assumes "init_segment e hn d st = Inr st'" "distinct (map fst (seg_sizes st))"
  shows "distinct (map fst (seg_sizes st'))"
    and "sum_list (map snd (seg_sizes st')) =
           sum_list (map snd (seg_sizes st)) + sum_list (map rom_length (regions [d]))"
proof -
  have "distinct (map fst (seg_sizes st')) \<and>
        sum_list (map snd (seg_sizes st')) =
           sum_list (map snd (seg_sizes st)) + sum_list (map rom_length (regions [d]))"
    using assms(1)
  proof (cases rule: init_segment_InrE)
    case (1 a)
    with assms(2) show ?thesis by simp
  next
    case (2 seg cls out st3)
    define st2 where "st2 = st\<lparr>logged := logged st @ out,
             seen_segment_names :=
               (if require_unique_name cls then insert (name seg) (seen_segment_names st)
                else seen_segment_names st)\<rparr>"
    have c: "count_size (bucket seg) (rom_length seg) st2 = Inr st3"
      using 2(5) by (simp only: st2_def)
    have s2: "seg_sizes st2 = seg_sizes st" by (simp add: st2_def)
    have s': "seg_sizes st' = seg_sizes st3"
      using \<open>run_segment e cls seg st3 = Inr st'\<close> by (rule run_segment_doms(1))
    from count_size_sum [OF c] assms(2) s2 s' \<open>d = Region seg\<close> show ?thesis
      by simp
  qed
  then show "distinct (map fst (seg_sizes st'))"
    and "sum_list (map snd (seg_sizes st')) =
           sum_list (map snd (seg_sizes st)) + sum_list (map rom_length (regions [d]))"
    by simp_all
qed

lemma init_segments_sum:
  assumes "init_segments e follows ds st = Inr st'" "distinct (map fst (seg_sizes st))"
  shows "distinct (map fst (seg_sizes st')) \<and>
         sum_list (map snd (seg_sizes st')) =
           sum_list (map snd (seg_sizes st)) + sum_list (map rom_length (regions ds))"
  using assms
proof (induction ds arbitrary: st)
  case Nil
  then show ?case by simp
next
  case (Cons d ds)
  from Cons.prems(1) obtain s where s: "init_segment e (ds \<noteq> [] \<or> follows) d st = Inr s"
    and rest: "init_segments e follows ds s = Inr st'"
    by (auto split: sum.splits)
  note step = init_segment_sum [OF s Cons.prems(2)]
  from Cons.IH [OF rest step(1)] step(2) show ?case
    by (simp add: regions_Cons [of d ds])
qed

lemma covers_sum: "covers a ss b \<Longrightarrow> sum_list (map rom_length ss) = b - a"
  by (induction ss arbitrary: a) auto

text \<open>No step before the statistics raises \<open>AssertionError\<close>.\<close>

lemma getattr_no_assertion: "getattr m k \<noteq> Inl AssertionError"
  by (auto simp: getattr_def class_name_def split: list.splits option.splits)

lemma find_segment_class_no_assertion: "find_segment_class e k \<noteq> Inl AssertionError"
proof -
  have 1: "get_base_segment_class e k \<noteq> Inl AssertionError"
    using getattr_no_assertion [of _ k]
    by (auto simp: get_base_segment_class_def map_sum_def split: import_result.splits sum.splits)
  have 2: "get_extension_class e k \<noteq> Inl AssertionError"
    using getattr_no_assertion [of _ k]
    by (auto simp: get_extension_class_def map_sum_def
        split: option.splits load_result.splits sum.splits)
  from 1 2 show ?thesis
    by (auto simp: find_segment_class_def split: sum.splits option.splits)
qed

lemma run_segment_no_assertion: "run_segment e cls seg st \<noteq> Inl (AssertionError, s)"
  by (auto simp: run_segment_def dict_add_def Let_def split: option.splits)

lemma init_segment_no_assertion: "init_segment e hn d st \<noteq> Inl (AssertionError, s)"
proof (cases d)
  case (Sentinel a)
  then show ?thesis by (simp add: init_segment_def)
next
  case (Region seg)
  show ?thesis
  proof (cases "resolve_class e st (kind seg)")
    case (Inl stop)
    then have "fst stop \<noteq> AssertionError"
      using find_segment_class_no_assertion [of e "kind seg"]
      by (auto simp: resolve_class_def split: sum.splits option.splits prod.splits)
    with Inl Region show ?thesis
      by (auto simp: init_segment_def)
  next
    case (Inr ok)
    obtain cls st1 where "ok = (cls, st1)" by (cases ok)
    with Inr Region show ?thesis
      by (auto simp: init_segment_def Let_def count_size_eq run_segment_no_assertion)
  qed
qed

lemma init_segments_no_assertion: "init_segments e follows ds st \<noteq> Inl (AssertionError, s)"
  by (induction ds arbitrary: st) (auto simp: init_segment_no_assertion split: sum.splits)

lemma write_func_lines_error:
  "write_func_lines ls out = Inl (err, out') \<Longrightarrow> err = IndexError"
  by (induction ls arbitrary: out)
     (auto simp: func_line_def split: sum.splits list.splits)

lemma undefined_funcs_step_error:
  assumes "undefined_funcs_step e st = Inl (err, s)"
  shows "err = IndexError"
  using assms
  by (auto simp: undefined_funcs_step_def Let_def split: if_splits sum.splits
      dest: write_func_lines_error)

lemma undefined_funcs_step_sizes:
  assumes "undefined_funcs_step e st = Inr s"
  shows "seg_sizes s = seg_sizes st"
  using assms
  by (cases rule: undefined_funcs_step_cases [of e st]) (auto simp: write_file_sel)

text \<open>
  C6: if the regions declared cover the binary from its first byte to its last, each
  starting where the one before it ends and having its end minus its start as length,
  then after the loop the size of the unknown bucket plus the sizes of all other
  buckets is the length of the binary, and the run never stops at the assertion of
  line 296.
\<close>

theorem statistics_assertion_holds:
  assumes "covers 0 (regions ds) (total_size e)"
  shows "(\<forall>st. init_segments e False ds (init_state files) = Inr st \<longrightarrow>
            unk_size st + rest_size st = total_size e) \<and>
         result_error (main e files ds) \<noteq> Some AssertionError"
proof -
  have sizes: "unk_size st + rest_size st = total_size e"
    if loop: "init_segments e False ds (init_state files) = Inr st" for st
  proof -
    have "distinct (map fst (seg_sizes (init_state files)))"
      "sum_list (map snd (seg_sizes (init_state files))) = 0"
      by (simp_all add: init_state_def)
    with init_segments_sum [OF loop] covers_sum [OF assms]
    have d: "distinct (map fst (seg_sizes st))"
      and s: "sum_list (map snd (seg_sizes st)) = total_size e"
      by simp_all
    from sum_split_bucket [OF d, of "''unk''"] s show ?thesis
      by (simp add: unk_size_def rest_size_def)
  qed
  have "result_error (main e files ds) \<noteq> Some AssertionError"
  proof (cases "init_segments e False ds (init_state files)")
    case (Inl stop)
    obtain err s where "stop = (err, s)" by (cases stop)
    with Inl init_segments_no_assertion [of e False ds "init_state files" s] show ?thesis
      by (auto simp: main_def result_error_def)
  next
    case (Inr st)
    let ?b = "ldscript_step e (postsplit_all st)"
    have m: "main e files ds = finish e st"
      using Inr by (simp add: main_def)
    show ?thesis
    proof (cases "undefined_funcs_step e ?b")
      case (Inl stop)
      obtain err s where "stop = (err, s)" by (cases stop)
      with Inl undefined_funcs_step_error [of e ?b err s] show ?thesis
        by (simp add: m finish_def result_error_def)
    next
      case f: (Inr s1)
      have "seg_sizes (undefined_syms_step s1) = seg_sizes st"
        using undefined_funcs_step_sizes [OF f]
        by (simp add: undefined_syms_step_sel ldscript_step_sel postsplit_all_sel)
      then have "unk_size (undefined_syms_step s1) + rest_size (undefined_syms_step s1)
          = total_size e"
        using sizes [OF Inr] by (simp add: unk_size_def rest_size_def)
      then show ?thesis
        using f by (simp add: m finish_def statistics_step_def result_error_def)
    qed
  qed
  with sizes show ?thesis by blast
qed

theorem statistics_assertion_holds_witness:
  "covers 0 (regions
      [Region (example_segment ''code'' ''a'' 0 1 [] []),
       Region ((example_segment ''bin'' ''bin_10'' 16 2 [] [])\<lparr>is_name_default := True\<rparr>),
       Sentinel 32]) (total_size example_env) \<and>
   result_error (init_segments example_env False
      [Region (example_segment ''code'' ''a'' 0 1 [] []),
       Region ((example_segment ''bin'' ''bin_10'' 16 2 [] [])\<lparr>is_name_default := True\<rparr>),
       Sentinel 32] (init_state no_files)) = None \<and>
   unk_size (result_state (init_segments example_env False
      [Region (example_segment ''code'' ''a'' 0 1 [] []),
       Region ((example_segment ''bin'' ''bin_10'' 16 2 [] [])\<lparr>is_name_default := True\<rparr>),
       Sentinel 32] (init_state no_files))) = 16 \<and>
   rest_size (result_state (init_segments example_env False
      [Region (example_segment ''code'' ''a'' 0 1 [] []),
       Region ((example_segment ''bin'' ''bin_10'' 16 2 [] [])\<lparr>is_name_default := True\<rparr>),
       Sentinel 32] (init_state no_files))) = total_size example_env - 16 \<and>
   result_error (main example_env no_files
      [Region (example_segment ''code'' ''a'' 0 1 [] []),
       Region ((example_segment ''bin'' ''bin_10'' 16 2 [] [])\<lparr>is_name_default := True\<rparr>),
       Sentinel 32]) \<noteq> Some AssertionError"
proof -
  define ds :: "nat decl list" where
    "ds = [Region (example_segment ''code'' ''a'' 0 1 [] []),
           Region ((example_segment ''bin'' ''bin_10'' 16 2 [] [])\<lparr>is_name_default := True\<rparr>),
           Sentinel 32]"
  define r where "r = init_segments example_env False ds (init_state no_files)"
  define st where "st = result_state r"
  note defs = st_def r_def ds_def
  have cov: "covers 0 (regions ds) (total_size example_env)"
    by (simp add: ds_def example_segment_def total_size_def example_env_def)
  have ok: "result_error r = None"
    unfolding defs by code_simp
  have reach: "init_segments example_env False ds (init_state no_files) = Inr st"
    using result_Inr [OF ok] by (simp only: st_def r_def)
  have unk: "unk_size st = 16"
    unfolding defs by code_simp
  from statistics_assertion_holds [OF cov, of no_files] reach unk
  have "rest_size st = total_size example_env - 16"
    "result_error (main example_env no_files ds) \<noteq> Some AssertionError"
    by auto
  with cov ok unk show ?thesis
    unfolding defs by blast
qed


section \<open>Unresolved functions\<close>


text \<open>The keys of \<open>c_funcs\<close> are integers, so subtracting them from a set of names
  removes nothing.\<close>

lemma names_minus_c_predefined: "names_minus A (c_predefined_funcs e) = A"
  by (auto simp: names_minus_def c_predefined_funcs_def)

lemma funcs_to_write_eq:
  "funcs_to_write e st = sorted_list_of_set (undefined_funcs st - defined_funcs st)"
  by (simp add: funcs_to_write_def names_minus_c_predefined)


lemma funcs_to_write_sorted: "sorted (funcs_to_write e st)"
  by (simp add: funcs_to_write_eq)

text \<open>The sets of names stay finite.\<close>

lemma init_segment_finite:
  assumes "init_segment e hn d st = Inr st'"
    and "finite (undefined_funcs st) \<and> finite (undefined_syms st)"
  shows "finite (undefined_funcs st') \<and> finite (undefined_syms st')"
  using assms(1)
proof (cases rule: init_segment_InrE)
  case (1 a)
  with assms(2) show ?thesis by simp
next
  case (2 seg cls out st3)
  have c: "undefined_funcs st3 = undefined_funcs st" "undefined_syms st3 = undefined_syms st"
    using count_size_other(5,6) [OF 2(5)] by simp_all
  from \<open>run_segment e cls seg st3 = Inr st'\<close> show ?thesis
    using assms(2) by (cases rule: run_segment_InrE) (simp_all add: fold_symbols_def c)
qed

lemma init_segments_finite:
  assumes "init_segments e follows ds (init_state files) = Inr st"
  shows "finite (undefined_funcs st) \<and> finite (undefined_syms st)"
proof (rule init_segments_invariant [OF assms,
        where P = "\<lambda>s. finite (undefined_funcs s) \<and> finite (undefined_syms s)"])
  show "finite (undefined_funcs (init_state files)) \<and> finite (undefined_syms (init_state files))"
    by (simp add: init_state_def)
qed (rule init_segment_finite)

text \<open>After the loop the names to write are, in ascending order, the names requested
  by some region and defined by none.\<close>

lemma funcs_to_write_set:
  assumes "init_segments e follows ds (init_state files) = Inr st"
  shows "set (funcs_to_write e st) = undefined_funcs st - defined_funcs st"
  using init_segments_finite [OF assms] by (simp add: funcs_to_write_eq)

text \<open>The line of a name that follows the convention: a prefix without underscore, an
  underscore and eight characters without underscore.\<close>

lemma py_split_no_sep: "c \<notin> set s \<Longrightarrow> py_split c s = [s]"
  by (induction s) auto

lemma py_split_one_sep:
  "c \<notin> set p \<Longrightarrow> c \<notin> set h \<Longrightarrow> py_split c (p @ c # h) = [p, h]"
  by (induction p) (auto simp: py_split_no_sep)

lemma func_line_convention:
  assumes "CHR ''_'' \<notin> set p" "CHR ''_'' \<notin> set h" "length h = 8"
  shows "func_line (p @ ''_'' @ h) = Inr (p @ ''_'' @ h @ '' = 0x'' @ upper h @ '';\<newline>'')"
  using assms py_split_one_sep [of "CHR ''_''" p h] by (simp add: func_line_def)







text \<open>
  C5 on a declared function: \<open>func_80001000\<close> is in the manually declared function
  list, is requested by region \<open>a\<close> and defined by no region; its line is written to
  the unresolved-function file all the same, since line 273 collects the addresses of
  \<open>c_funcs\<close>, not its names.
\<close>

theorem declared_function_exported:
  "''func_80001000'' \<in> snd ` set (c_funcs (example_env\<lparr>c_funcs := [(0x80001000, ''func_80001000'')]\<rparr>)) \<and>
   result_error (main (example_env\<lparr>c_funcs := [(0x80001000, ''func_80001000'')]\<rparr>) no_files
      [Region (example_segment ''code'' ''a'' 0 1 [] [''func_80001000'']),
       Region (example_segment ''bin'' ''b'' 16 2 [] []),
       Sentinel 32]) = None \<and>
   fs (result_state (main (example_env\<lparr>c_funcs := [(0x80001000, ''func_80001000'')]\<rparr>) no_files
      [Region (example_segment ''code'' ''a'' 0 1 [] [''func_80001000'']),
       Region (example_segment ''bin'' ''b'' 16 2 [] []),
       Sentinel 32])) UndefinedFuncsAuto = Some (Text ''func_80001000 = 0x80001000;\<newline>'')"
  by code_simp


end
